theory Spec2Isabelle
  imports Main
begin

section \<open>JavaScript values\<close>

text \<open>
  The values that flow through the tool pipeline are JSON-like JavaScript values.
  An object is a plain object: its prototype is \<open>Object.prototype\<close>, which the program
  leaves as the language defines it. It is kept as the list of its own enumerable
  entries in enumeration order (\<open>Object.keys\<close> / \<open>Object.entries\<close>), because the order of
  the error list follows it.
  Numbers are modelled as integers: the validator only tests \<open>typeof\<close> and compares
  with \<open><\<close> and \<open>>\<close>, so fractions, \<open>NaN\<close> and the infinities are left out.
  A property read on an object that has no such property of its own finds the members
  of \<open>Object.prototype\<close>: built-in functions and, under \<open>__proto__\<close>, \<open>Object.prototype\<close>
  itself. Both are values of the model, \<open>JFunction\<close> with the name of the function.
\<close>

datatype jval =
    JUndefined
  | JNull
  | JBool bool
  | JNum int
  | JStr string
  | JArr "jval list"
  | JObj "(string \<times> jval) list"
  | JFunction string
  | JObjectPrototype

type_synonym jrecord = "(string \<times> jval) list"

text \<open>\<open>typeof value\<close>.\<close>

fun typeofJ :: "jval \<Rightarrow> string" where
  "typeofJ JUndefined = ''undefined''"
| "typeofJ JNull = ''object''"
| "typeofJ (JBool b) = ''boolean''"
| "typeofJ (JNum n) = ''number''"
| "typeofJ (JStr s) = ''string''"
| "typeofJ (JArr xs) = ''object''"
| "typeofJ (JObj kvs) = ''object''"
| "typeofJ (JFunction f) = ''function''"
| "typeofJ JObjectPrototype = ''object''"

text \<open>\<open>Array.isArray(value)\<close>.\<close>

fun isArray :: "jval \<Rightarrow> bool" where
  "isArray (JArr xs) = True"
| "isArray v = False"

text \<open>\<open>value === undefined || value === null\<close>.\<close>

definition nullish :: "jval \<Rightarrow> bool" where
  "nullish v = (v = JUndefined \<or> v = JNull)"

text \<open>\<open>a ?? b\<close>.\<close>

definition coalesce :: "jval \<Rightarrow> jval \<Rightarrow> jval" where
  "coalesce a b = (if nullish a then b else a)"

subsection \<open>Properties, own and inherited\<close>

text \<open>
  The members of \<open>Object.prototype\<close> (\<open>Object.getOwnPropertyNames(Object.prototype)\<close>):
  eleven functions and the accessor \<open>__proto__\<close>, which on a plain object returns
  \<open>Object.prototype\<close>.
\<close>

definition objectPrototype :: jrecord where
  "objectPrototype =
     [(''constructor'', JFunction ''Object''),
      (''__defineGetter__'', JFunction ''__defineGetter__''),
      (''__defineSetter__'', JFunction ''__defineSetter__''),
      (''hasOwnProperty'', JFunction ''hasOwnProperty''),
      (''__lookupGetter__'', JFunction ''__lookupGetter__''),
      (''__lookupSetter__'', JFunction ''__lookupSetter__''),
      (''isPrototypeOf'', JFunction ''isPrototypeOf''),
      (''propertyIsEnumerable'', JFunction ''propertyIsEnumerable''),
      (''toString'', JFunction ''toString''),
      (''valueOf'', JFunction ''valueOf''),
      (''__proto__'', JObjectPrototype),
      (''toLocaleString'', JFunction ''toLocaleString'')]"

text \<open>An own property: \<open>Object.keys(obj).includes(key)\<close>.\<close>

definition hasOwn :: "string \<Rightarrow> (string \<times> 'a) list \<Rightarrow> bool" where
  "hasOwn k obj = (k \<in> set (map fst obj))"

text \<open>
  \<open>key in obj\<close> and \<open>obj[key]\<close> on a plain object: its own property if it has one, else
  the member of \<open>Object.prototype\<close> of that name; a name found in neither reads as
  \<open>undefined\<close>.
\<close>

definition hasKey :: "string \<Rightarrow> (string \<times> 'a) list \<Rightarrow> bool" where
  "hasKey k obj = (hasOwn k obj \<or> hasOwn k objectPrototype)"

definition inherited :: "string \<Rightarrow> jval" where
  "inherited k = (case map_of objectPrototype k of None \<Rightarrow> JUndefined | Some member \<Rightarrow> member)"

definition getField :: "jrecord \<Rightarrow> string \<Rightarrow> jval" where
  "getField obj k = (case map_of obj k of None \<Rightarrow> inherited k | Some v \<Rightarrow> v)"

text \<open>
  The same three operations on a value that is used as an object
  (\<open>value as Record<string, unknown>\<close>). \<open>Object.prototype\<close> has no enumerable key, has
  its members as its own properties, and its \<open>__proto__\<close> is \<open>null\<close>. Only objects are
  used so: the validator tests \<open>typeof value === "object"\<close>, not an array and not
  \<open>null\<close>, before it reads a value as a record.
\<close>

fun ownKeys :: "jval \<Rightarrow> string list" where
  "ownKeys (JObj kvs) = map fst kvs"
| "ownKeys v = []"

fun hasProperty :: "string \<Rightarrow> jval \<Rightarrow> bool" where
  "hasProperty k (JObj kvs) = hasKey k kvs"
| "hasProperty k JObjectPrototype = hasOwn k objectPrototype"
| "hasProperty k v = False"

fun getProperty :: "jval \<Rightarrow> string \<Rightarrow> jval" where
  "getProperty (JObj kvs) k = getField kvs k"
| "getProperty JObjectPrototype k = (if k = ''__proto__'' then JNull else inherited k)"
| "getProperty v k = JUndefined"

text \<open>
  \<open>obj[key] = value\<close> on a plain object: an own property is overwritten where it stands,
  a new one is added last. An assignment to \<open>__proto__\<close> on an object without such a
  property of its own runs the setter of \<open>Object.prototype\<close> and adds no property (that
  it may give the object another prototype is not followed: the objects of the model
  all inherit from \<open>Object.prototype\<close>).
\<close>

definition setField :: "(string \<times> 'a) list \<Rightarrow> string \<Rightarrow> 'a \<Rightarrow> (string \<times> 'a) list" where
  "setField obj key val =
     (if hasOwn key obj then map (\<lambda>(k, v). if k = key then (k, val) else (k, v)) obj
      else if key = ''__proto__'' then obj
      else obj @ [(key, val)])"

text \<open>The object that a loop builds from \<open>{}\<close> by the assignments \<open>obj[key] = value\<close>,
  in their order.\<close>

definition fromAssignments :: "(string \<times> 'a) list \<Rightarrow> (string \<times> 'a) list" where
  "fromAssignments kvs = foldl (\<lambda>obj (key, val). setField obj key val) [] kvs"

text \<open>The elements of an array value.\<close>

fun arrItems :: "jval \<Rightarrow> jval list" where
  "arrItems (JArr xs) = xs"
| "arrItems v = []"

subsection \<open>Rendering numbers and joining strings\<close>

fun string_of_nat :: "nat \<Rightarrow> string" where
  "string_of_nat n =
     (if n < 10 then [char_of (48 + n)]
      else string_of_nat (n div 10) @ [char_of (48 + n mod 10)])"

definition string_of_int :: "int \<Rightarrow> string" where
  "string_of_int i = (if i < 0 then CHR ''-'' # string_of_nat (nat (- i)) else string_of_nat (nat i))"

text \<open>A name between single quotes, as the messages show it.\<close>

definition quoted :: "string \<Rightarrow> string" where
  "quoted s = [CHR 0x27] @ s @ [CHR 0x27]"

text \<open>\<open>xs.join(sep)\<close>.\<close>

fun join :: "string \<Rightarrow> string list \<Rightarrow> string" where
  "join sep [] = []"
| "join sep [x] = x"
| "join sep (x # y # ys) = x @ sep @ join sep (y # ys)"

section \<open>Parameter schemas (types/openAPISpec.types.ts)\<close>

text \<open>An entry of \<open>enum?: (string | number)[]\<close>.\<close>

datatype enumValue = EStr string | ENum int

fun enumToString :: "enumValue \<Rightarrow> string" where
  "enumToString (EStr s) = s"
| "enumToString (ENum n) = string_of_int n"

text \<open>
  \<open>OpenAPISchemaProperty\<close>. The field \<open>type\<close> is kept as the string it is at run time.
  The fields \<open>description\<close>, \<open>default\<close> and \<open>format\<close> are never read by the validator
  and are left out.
\<close>

datatype schemaProp = OpenAPISchemaProperty
  (p_type: string)
  (p_items: "schemaProp option")
  (p_properties: "(string \<times> schemaProp) list option")
  (p_required: "string list option")
  (p_enum: "enumValue list option")
  (p_minimum: "int option")
  (p_maximum: "int option")
  (p_minLength: "int option")
  (p_maxLength: "int option")

text \<open>\<open>OpenAPISchema\<close>: \<open>type\<close> is always \<open>"object"\<close>.\<close>

record openAPISchema =
  s_properties :: "(string \<times> schemaProp) list"
  s_required :: "string list option"

text \<open>
  The simplified form of a schema is an object with one entry for each parameter: a
  property object, a type name given as a string (\<open>{field: "type"}\<close>), or any other value
  (which \<open>normalizeToOpenAPISchema\<close> treats as \<open>"string"\<close>).
\<close>

datatype simpleEntry = SProp schemaProp | STypeName string | SOther

text \<open>
  \<open>ParametersSchema\<close> is the untagged union
  \<open>OpenAPISchema | Record<string, OpenAPISchemaProperty>\<close>, and the code tells the two
  forms apart by the shape of the object (\<open>normalizeToOpenAPISchema\<close>, lines 25-30):
  \<open>"type" in schema && schema.type === "object" && "properties" in schema\<close>. An
  \<open>OpenAPISchema\<close> always passes this test. On an object given by its entries the test
  is \<open>fullShape\<close>; \<open>Object.prototype\<close> has no member named \<open>type\<close> or \<open>properties\<close>.
\<close>

definition fullShape :: "(string \<times> simpleEntry) list \<Rightarrow> bool" where
  "fullShape es = (hasKey ''type'' es \<and> map_of es ''type'' = Some (STypeName ''object'')
                   \<and> hasKey ''properties'' es)"

text \<open>
  So the simplified schemas, for the code, are the objects that fail the test, and the
  type of simplified schemas holds exactly these. An object that passes is taken for an
  \<open>OpenAPISchema\<close> as it stands (the cast of line 31), whatever its author meant: an
  object with the parameters \<open>type: "object"\<close> and \<open>properties\<close> is no simplified
  schema. It is an \<open>OpenAPISchema\<close>, and then the \<open>FullSchema\<close> of the model, when its
  \<open>properties\<close> is a record of property objects and its \<open>required\<close>, if any, a list of
  names; the other objects of the full shape are no values of the TypeScript type
  \<open>ParametersSchema\<close> and are outside the model.
\<close>

typedef simplifiedSchema = "{es :: (string \<times> simpleEntry) list. \<not> fullShape es}"
  morphisms entriesOf Simplified
  by (rule exI [of _ "[]"]) (simp add: fullShape_def hasKey_def hasOwn_def objectPrototype_def)

setup_lifting type_definition_simplifiedSchema

instantiation simplifiedSchema :: equal
begin

lift_definition equal_simplifiedSchema :: "simplifiedSchema \<Rightarrow> simplifiedSchema \<Rightarrow> bool"
  is "\<lambda>a b. a = b" .

instance
  by standard (simp add: equal_simplifiedSchema.rep_eq entriesOf_inject)

end

lemma simplified_fails_shape_test: "\<not> fullShape (entriesOf schema)"
  using entriesOf [of schema] by simp

text \<open>For instance the object \<open>{type: "object", properties: "string"}\<close>, meant as the
  two parameters \<open>type\<close> and \<open>properties\<close>, passes the test and is no simplified schema.\<close>

lemma parameters_named_like_a_schema:
  "fullShape [(''type'', STypeName ''object''), (''properties'', STypeName ''string'')]"
  by (simp add: fullShape_def hasKey_def hasOwn_def)

lemma entriesOf_Simplified: "\<not> fullShape es \<Longrightarrow> entriesOf (Simplified es) = es"
  by (simp add: Simplified_inverse)

datatype parametersSchema =
    FullSchema openAPISchema
  | SimplifiedSchema simplifiedSchema

text \<open>A property that only declares its type.\<close>

definition typeOnly :: "string \<Rightarrow> schemaProp" where
  "typeOnly t = OpenAPISchemaProperty t None None None None None None None None"

text \<open>
  \<open>normalizeToOpenAPISchema\<close> (utils/openApiSpec.ts, lines 23-62). The first branch
  returns a schema of the full shape as it is. The loop of the second branch assigns
  \<open>properties[key]\<close> and pushes \<open>key\<close> to \<open>required\<close> for every entry.
\<close>

fun normalizeEntry :: "simpleEntry \<Rightarrow> schemaProp" where
  "normalizeEntry (SProp p) = p"
| "normalizeEntry (STypeName t) = typeOnly t"
| "normalizeEntry SOther = typeOnly ''string''"

fun normalizeToOpenAPISchema :: "parametersSchema \<Rightarrow> openAPISchema" where
  "normalizeToOpenAPISchema (FullSchema s) = s"
| "normalizeToOpenAPISchema (SimplifiedSchema schema) =
     \<lparr> s_properties = fromAssignments (map (\<lambda>(key, value). (key, normalizeEntry value))
                                          (entriesOf schema)),
       s_required = Some (map fst (entriesOf schema)) \<rparr>"

section \<open>Schema validation (utils/openApiSpec.ts)\<close>

record validationResult =
  isValid :: bool
  vr_data :: "jrecord option"
  vr_errors :: "string list option"

text \<open>\<open>property.enum.includes(value)\<close>: strict equality against strings and numbers.\<close>

fun enumIncludes :: "enumValue list \<Rightarrow> jval \<Rightarrow> bool" where
  "enumIncludes es (JStr s) = (EStr s \<in> set es)"
| "enumIncludes es (JNum n) = (ENum n \<in> set es)"
| "enumIncludes es v = False"

text \<open>The \<open>actualType\<close> shown in type errors (lines 85-89).\<close>

definition actualType :: "jval \<Rightarrow> string" where
  "actualType v = (if isArray v then ''array'' else if v = JNull then ''null'' else typeofJ v)"

text \<open>\<open>value.length\<close> of a string value, and the number held by a number value.\<close>

fun strLength :: "jval \<Rightarrow> int" where
  "strLength (JStr s) = int (length s)"
| "strLength v = 0"

fun numValue :: "jval \<Rightarrow> int" where
  "numValue (JNum n) = n"
| "numValue v = 0"

text \<open>
  The checks of \<open>validateProperty\<close> that do not recurse (lines 83-177), in the order of
  the source: the six type tests, the enum, the string bounds, the numeric bounds. The
  result is the message of the first check that fails.
\<close>

definition constraintError :: "jval \<Rightarrow> schemaProp \<Rightarrow> string \<Rightarrow> string option" where
  "constraintError v p fieldPath =
    (let expectedType = p_type p in
     if expectedType = ''integer'' \<and> typeofJ v \<noteq> ''number'' then
       Some (''Field '' @ quoted fieldPath @ '' must be an integer, got '' @ actualType v)
     else if expectedType = ''number'' \<and> typeofJ v \<noteq> ''number'' then
       Some (''Field '' @ quoted fieldPath @ '' must be a number, got '' @ actualType v)
     else if expectedType = ''string'' \<and> typeofJ v \<noteq> ''string'' then
       Some (''Field '' @ quoted fieldPath @ '' must be a string, got '' @ actualType v)
     else if expectedType = ''boolean'' \<and> typeofJ v \<noteq> ''boolean'' then
       Some (''Field '' @ quoted fieldPath @ '' must be a boolean, got '' @ actualType v)
     else if expectedType = ''array'' \<and> \<not> isArray v then
       Some (''Field '' @ quoted fieldPath @ '' must be an array, got '' @ actualType v)
     else if expectedType = ''object'' \<and> (typeofJ v \<noteq> ''object'' \<or> isArray v \<or> v = JNull) then
       Some (''Field '' @ quoted fieldPath @ '' must be an object, got '' @ actualType v)
     else if (case p_enum p of None \<Rightarrow> False | Some es \<Rightarrow> \<not> enumIncludes es v) then
       Some (''Field '' @ quoted fieldPath @ '' must be one of: ''
             @ join '', '' (map enumToString (case p_enum p of None \<Rightarrow> [] | Some es \<Rightarrow> es)))
     else if expectedType = ''string'' \<and> typeofJ v = ''string'' \<and>
             (case p_minLength p of None \<Rightarrow> False | Some m \<Rightarrow> strLength v < m) then
       Some (''Field '' @ quoted fieldPath @ '' must be at least ''
             @ string_of_int (case p_minLength p of None \<Rightarrow> 0 | Some m \<Rightarrow> m) @ '' characters'')
     else if expectedType = ''string'' \<and> typeofJ v = ''string'' \<and>
             (case p_maxLength p of None \<Rightarrow> False | Some m \<Rightarrow> strLength v > m) then
       Some (''Field '' @ quoted fieldPath @ '' must be at most ''
             @ string_of_int (case p_maxLength p of None \<Rightarrow> 0 | Some m \<Rightarrow> m) @ '' characters'')
     else if (expectedType = ''number'' \<or> expectedType = ''integer'') \<and> typeofJ v = ''number'' \<and>
             (case p_minimum p of None \<Rightarrow> False | Some m \<Rightarrow> numValue v < m) then
       Some (''Field '' @ quoted fieldPath @ '' must be at least ''
             @ string_of_int (case p_minimum p of None \<Rightarrow> 0 | Some m \<Rightarrow> m))
     else if (expectedType = ''number'' \<or> expectedType = ''integer'') \<and> typeofJ v = ''number'' \<and>
             (case p_maximum p of None \<Rightarrow> False | Some m \<Rightarrow> numValue v > m) then
       Some (''Field '' @ quoted fieldPath @ '' must be at most ''
             @ string_of_int (case p_maximum p of None \<Rightarrow> 0 | Some m \<Rightarrow> m))
     else None)"

text \<open>The left and right components of a list of results.\<close>

definition lefts :: "('a + 'b) list \<Rightarrow> 'a list" where
  "lefts rs = concat (map (\<lambda>r. case r of Inl e \<Rightarrow> [e] | Inr v \<Rightarrow> []) rs)"

definition rights :: "('a + 'b) list \<Rightarrow> 'b list" where
  "rights rs = concat (map (\<lambda>r. case r of Inl e \<Rightarrow> [] | Inr v \<Rightarrow> [v]) rs)"

text \<open>\<open>result.error || fallback\<close>: an empty string is falsy.\<close>

definition orElse :: "string \<Rightarrow> string \<Rightarrow> string" where
  "orElse e fallback = (if e = [] then fallback else e)"

text \<open>
  The fields that the property loop of \<open>validateAgainstOpenAPISchema\<close> does not skip
  (lines 256-262): required ones, and optional ones for which \<open>data[fieldName]\<close> is
  neither \<open>undefined\<close> nor \<open>null\<close>.
\<close>

definition checkedProperties :: "jval \<Rightarrow> string list \<Rightarrow> (string \<times> schemaProp) list \<Rightarrow> (string \<times> schemaProp) list" where
  "checkedProperties data requiredFields props =
     filter (\<lambda>(fieldName, property).
        \<not> (fieldName \<notin> set requiredFields \<and> nullish (getProperty data fieldName))) props"

text \<open>The errors of the first loop (lines 242-250) and of the last loop (lines 273-277).\<close>

definition missingErrors :: "jval \<Rightarrow> string list \<Rightarrow> string list" where
  "missingErrors data requiredFields =
     map (\<lambda>fieldName. ''Missing required field: '' @ fieldName)
       (filter (\<lambda>fieldName. \<not> hasProperty fieldName data \<or> nullish (getProperty data fieldName))
          requiredFields)"

definition unexpectedErrors :: "jval \<Rightarrow> (string \<times> schemaProp) list \<Rightarrow> string list" where
  "unexpectedErrors data props =
     map (\<lambda>key. ''Unexpected field: '' @ key)
       (filter (\<lambda>key. \<not> hasKey key props) (ownKeys data))"

text \<open>
  \<open>validateProperty\<close> (lines 73-223) and \<open>validateAgainstOpenAPISchema\<close> (lines 233-284).
  A result of \<open>validateProperty\<close> is \<open>Inl error\<close> for \<open>{isValid: false, error}\<close> and
  \<open>Inr validatedValue\<close> for \<open>{isValid: true, validatedValue}\<close>. The data of
  \<open>validateAgainstOpenAPISchema\<close> are the object itself, because \<open>validateProperty\<close>
  hands it any value that passed the test for \<open>"object"\<close>; \<open>validatedData\<close> is built by
  the assignments \<open>validatedData[fieldName] = ...\<close> of the property loop.
\<close>

function validateProperty :: "jval \<Rightarrow> schemaProp \<Rightarrow> string \<Rightarrow> string + jval"
  and validateAgainstOpenAPISchema :: "jval \<Rightarrow> openAPISchema \<Rightarrow> validationResult"
where
  "validateProperty v p fieldPath =
    (if nullish v then Inl (''Missing required field: '' @ fieldPath)
     else case constraintError v p fieldPath of
       Some e \<Rightarrow> Inl e
     | None \<Rightarrow>
        (case (if p_type p = ''object'' then p_properties p else None) of
           Some ps \<Rightarrow>
             (let nestedResult = validateAgainstOpenAPISchema v
                                   \<lparr> s_properties = ps, s_required = p_required p \<rparr>
              in if \<not> isValid nestedResult then
                   Inl (''Field '' @ quoted fieldPath @ '' validation failed: ''
                        @ (case vr_errors nestedResult of
                             None \<Rightarrow> ''undefined'' | Some es \<Rightarrow> join '', '' es))
                 else Inr (case vr_data nestedResult of None \<Rightarrow> JUndefined | Some d \<Rightarrow> JObj d))
         | None \<Rightarrow>
            (case (if p_type p = ''array'' \<and> isArray v then p_items p else None) of
               Some itemProp \<Rightarrow>
                 (let results = map (\<lambda>(i, item).
                                  case validateProperty item itemProp
                                         (fieldPath @ ''['' @ string_of_nat i @ '']'') of
                                    Inl e \<Rightarrow> Inl (orElse e ''Invalid item'')
                                  | Inr validated \<Rightarrow> Inr (coalesce validated item))
                                (zip [0..<length (arrItems v)] (arrItems v));
                      itemErrors = lefts results;
                      validatedItems = rights results
                  in if itemErrors \<noteq> [] then Inl (join ''; '' itemErrors)
                     else Inr (JArr validatedItems))
             | None \<Rightarrow> Inr v)))"
| "validateAgainstOpenAPISchema data schema =
    (let requiredFields = (case s_required schema of None \<Rightarrow> [] | Some r \<Rightarrow> r);
         results = map (\<lambda>(fieldName, property).
                      case validateProperty (getProperty data fieldName) property fieldName of
                        Inl e \<Rightarrow> Inl (orElse e (''Invalid field: '' @ fieldName))
                      | Inr validated \<Rightarrow>
                          Inr (fieldName, coalesce validated (getProperty data fieldName)))
                    (checkedProperties data requiredFields (s_properties schema));
         errors = missingErrors data requiredFields @ lefts results
                  @ unexpectedErrors data (s_properties schema);
         validatedData = fromAssignments (rights results)
     in \<lparr> isValid = (errors = []),
          vr_data = (if errors = [] then Some validatedData else None),
          vr_errors = (if errors \<noteq> [] then Some errors else None) \<rparr>)"
  by pat_completeness auto

lemma size_prop_member:
  "(k, q) \<in> set ps \<Longrightarrow> size q < size_list (size_prod (\<lambda>_. 0) size) ps"
  by (induction ps) auto

lemma size_p_items: "p_items p = Some q \<Longrightarrow> size q < size p"
  by (cases p) simp

lemma size_p_properties:
  "p_properties p = Some ps \<Longrightarrow> size_list (size_prod (\<lambda>_. 0) size) ps < size p"
  by (cases p) simp

termination validateProperty
  apply (relation "measure (\<lambda>x. case x of
            Inl (v, p, path) \<Rightarrow> 2 * size p
          | Inr (data, schema) \<Rightarrow>
              2 * size_list (size_prod (\<lambda>_. 0) size) (s_properties schema) + 1)")
    apply simp
   apply (auto split: if_splits simp: checkedProperties_def
               dest: size_prop_member size_p_items size_p_properties)
  done

text \<open>\<open>validateAgainstSchema\<close> (lines 294-300), on a record.\<close>

definition validateAgainstSchema :: "jrecord \<Rightarrow> parametersSchema \<Rightarrow> validationResult" where
  "validateAgainstSchema data schema =
     validateAgainstOpenAPISchema (JObj data) (normalizeToOpenAPISchema schema)"
section \<open>Tools, plans and the language-model gateway\<close>

text \<open>\<open>ToolCall\<close> (types/zod.types.ts).\<close>

record toolCall =
  tc_tool :: string
  tc_arguments :: "jrecord option"
  tc_context :: "string option"

text \<open>\<open>AgentError(message, toolName?, retryCount?)\<close>.\<close>

datatype agentError =
  AgentError (ae_message: string) (ae_toolName: "string option") (ae_retryCount: "nat option")

text \<open>\<open>PlanningResponse\<close> and, as far as \<open>execute\<close> reads it, \<open>NextStepResponse\<close>
  (implementations/agent.ts, lines 849-880).\<close>

record planStep =
  ps_stepNumber :: int
  ps_description :: string
  ps_tool :: string
  ps_arguments :: "jrecord option"
  ps_dependsOn :: "int list option"

record planningResponse =
  pr_plan :: string
  pr_steps :: "planStep list option"
  pr_isComplete :: bool

record nextStepResponse =
  ns_shouldContinue :: bool
  ns_finalResponse :: "string option"

text \<open>\<open>ExecutionStep\<close>, \<open>OrchestratorStatus\<close>, \<open>OrchestratorState\<close> and
  \<open>OrchestratorResult\<close> (types/orchestrator.types.ts).\<close>

record executionStep =
  es_stepNumber :: int
  es_description :: string
  es_toolCall :: toolCall
  es_completed :: bool
  es_result :: "jval option"
  es_error :: "string option"
  es_dependsOn :: "int list option"

datatype orchestratorStatus = StIdle | StPlanning | StExecuting | StCompleted | StError

record orchestratorState =
  os_userQuery :: string
  os_plan :: "string option"
  os_steps :: "executionStep list"
  os_currentStepIndex :: int
  os_status :: orchestratorStatus
  os_conversationHistory :: "string list"
  os_context :: jrecord
  os_error :: "string option"

record orchestratorResult =
  or_success :: bool
  or_finalResponse :: string
  or_steps :: "executionStep list"
  or_state :: orchestratorState
  or_error :: "string option"

text \<open>
  \<open>StructuredLLMResponse<T>\<close>, as far as the callers read it: \<open>structuredData\<close> is
  \<open>T | null\<close>, \<open>validationErrors\<close> is optional.
\<close>

record 'a structuredResponse =
  sr_isValid :: bool
  sr_structuredData :: "'a option"
  sr_validationErrors :: "string list option"

text \<open>
  A request to \<open>getStructuredOutput\<close>. Each prompt is a fixed text around the values kept
  here and the agent's tool catalogue, so a gateway that is a function of the prompt is a
  function of these values. The four constructors are the four places that build a
  request: \<open>generateStructuredDataForTool\<close>, \<open>regenerateStructuredDataWithError\<close>,
  \<open>generatePlan\<close> and \<open>determineNextStep\<close>.
\<close>

datatype llmRequest =
    ExtractParameters string parametersSchema "string option" string
  | RegenerateParameters string parametersSchema string string
  | PlanRequest string "string option" "planningResponse option" "executionStep list option"
  | NextStepRequest orchestratorState

text \<open>
  Effects. A tool's \<open>execute\<close> and the gateway act on an outside world \<open>'w\<close> that the
  model threads through every call: each takes the world and returns the new one, with
  \<open>Inl message\<close> for a rejected promise (a thrown error with that message). The model adds
  a trace of the calls made, so that a theorem can count them.
\<close>

datatype event =
    GatewayCall llmRequest
  | ExecuteCall string jrecord
  | Sleep nat

record 'w sys =
  world :: 'w
  trace :: "event list"

text \<open>\<open>Tool\<close> (types/zod.types.ts); \<open>agentic\<close> absent counts as false.\<close>

record 'w tool =
  t_name :: string
  t_description :: string
  t_parametersSchema :: parametersSchema
  t_execute :: "jrecord \<Rightarrow> 'w \<Rightarrow> (string + jval) \<times> 'w"
  t_agentic :: bool
  t_systemPrompt :: "string option"

text \<open>\<open>ILLMService.getStructuredOutput<T>\<close> at the three types it is used at.\<close>

record 'w llmService =
  getStructuredParameters :: "llmRequest \<Rightarrow> 'w \<Rightarrow> (string + jrecord structuredResponse) \<times> 'w"
  getStructuredPlan :: "llmRequest \<Rightarrow> 'w \<Rightarrow> (string + planningResponse structuredResponse) \<times> 'w"
  getStructuredNextStep :: "llmRequest \<Rightarrow> 'w \<Rightarrow> (string + nextStepResponse structuredResponse) \<times> 'w"

text \<open>The fields of \<open>Agent\<close>. The registry is a \<open>Map\<close> keyed by the tools' names, in
  insertion order; the constructor and \<open>addTool\<close> refuse a second tool of the same name.\<close>

record 'w agent =
  a_tools :: "'w tool list"
  a_maxRetries :: nat
  a_retryDelay :: nat
  a_llmService :: "'w llmService"

text \<open>\<open>await tool.execute(finalArgs)\<close>.\<close>

definition runExecute :: "'w tool \<Rightarrow> jrecord \<Rightarrow> 'w sys \<Rightarrow> (string + jval) \<times> 'w sys" where
  "runExecute tool args s =
     (case t_execute tool args (world s) of
        (r, w) \<Rightarrow> (r, \<lparr> world = w, trace = trace s @ [ExecuteCall (t_name tool) args] \<rparr>))"

text \<open>\<open>await llmService.getStructuredOutput(request)\<close>.\<close>

definition askGateway ::
  "(llmRequest \<Rightarrow> 'w \<Rightarrow> (string + 'a) \<times> 'w) \<Rightarrow> llmRequest \<Rightarrow> 'w sys \<Rightarrow> (string + 'a) \<times> 'w sys" where
  "askGateway method request s =
     (case method request (world s) of
        (r, w) \<Rightarrow> (r, \<lparr> world = w, trace = trace s @ [GatewayCall request] \<rparr>))"

text \<open>\<open>await this.sleep(this.retryDelay)\<close>.\<close>

definition sleep :: "nat \<Rightarrow> 'w sys \<Rightarrow> 'w sys" where
  "sleep ms s = s\<lparr> trace := trace s @ [Sleep ms] \<rparr>"

text \<open>The calls of \<open>execute\<close> and of the gateway in a trace.\<close>

fun isExecuteCall :: "event \<Rightarrow> bool" where
  "isExecuteCall (ExecuteCall n a) = True"
| "isExecuteCall e = False"

fun isGatewayCall :: "event \<Rightarrow> bool" where
  "isGatewayCall (GatewayCall r) = True"
| "isGatewayCall e = False"

definition executeCalls :: "event list \<Rightarrow> event list" where
  "executeCalls evs = filter isExecuteCall evs"

definition gatewayCalls :: "event list \<Rightarrow> event list" where
  "gatewayCalls evs = filter isGatewayCall evs"

section \<open>The agent (implementations/agent.ts)\<close>

text \<open>\<open>getTool\<close> (lines 123-129).\<close>

definition getTool :: "'w agent \<Rightarrow> string \<Rightarrow> agentError + 'w tool" where
  "getTool ag toolName =
     (case find (\<lambda>t. t_name t = toolName) (a_tools ag) of
        None \<Rightarrow> Inl (AgentError (''Tool '' @ quoted toolName @ '' not found'') (Some toolName) None)
      | Some tool \<Rightarrow> Inr tool)"

text \<open>\<open>errors?.join(", ") || "Unknown validation error"\<close>.\<close>

definition validationErrorText :: "validationResult \<Rightarrow> string" where
  "validationErrorText r =
     orElse (case vr_errors r of None \<Rightarrow> [] | Some es \<Rightarrow> join '', '' es) ''Unknown validation error''"

text \<open>\<open>response.validationErrors?.join(", ")\<close> inside a template string.\<close>

definition responseErrorText :: "'a structuredResponse \<Rightarrow> string" where
  "responseErrorText r =
     (case sr_validationErrors r of None \<Rightarrow> ''undefined'' | Some es \<Rightarrow> join '', '' es)"

text \<open>
  \<open>generateStructuredDataForTool\<close> (lines 201-283). Every failure inside the \<open>try\<close>
  block, the two \<open>AgentError\<close>s thrown there included, is caught and thrown again with
  the prefix \<open>LLM service error for tool\<close>.
\<close>

definition generateStructuredDataForTool ::
  "'w agent \<Rightarrow> 'w tool \<Rightarrow> string \<Rightarrow> 'w sys \<Rightarrow> (agentError + jrecord) \<times> 'w sys" where
  "generateStructuredDataForTool ag tool distilledContext s =
    (let rethrow = (\<lambda>message.
           Inl (AgentError (''LLM service error for tool '' @ quoted (t_name tool) @ '': '' @ message)
                  (Some (t_name tool)) None));
         request = ExtractParameters (t_name tool) (t_parametersSchema tool)
                     (t_systemPrompt tool) distilledContext
     in case askGateway (getStructuredParameters (a_llmService ag)) request s of
          (Inl message, s1) \<Rightarrow> (rethrow message, s1)
        | (Inr response, s1) \<Rightarrow>
            if \<not> sr_isValid response then
              (rethrow (''Failed to generate valid structured data for tool ''
                        @ quoted (t_name tool) @ '': '' @ responseErrorText response), s1)
            else
              (let extractedData = (case sr_structuredData response of None \<Rightarrow> [] | Some d \<Rightarrow> d);
                   validationResult = validateAgainstSchema extractedData (t_parametersSchema tool)
               in if \<not> isValid validationResult then
                    (rethrow (''Extracted data failed strict validation for tool ''
                              @ quoted (t_name tool) @ '': '' @ validationErrorText validationResult), s1)
                  else (Inr (case vr_data validationResult of None \<Rightarrow> [] | Some d \<Rightarrow> d), s1)))"

text \<open>\<open>regenerateStructuredDataWithError\<close> (lines 298-385).\<close>

definition regenerateStructuredDataWithError ::
  "'w agent \<Rightarrow> 'w tool \<Rightarrow> string \<Rightarrow> string \<Rightarrow> 'w sys \<Rightarrow> (agentError + jrecord) \<times> 'w sys" where
  "regenerateStructuredDataWithError ag tool context errorMessage s =
    (let rethrow = (\<lambda>message.
           Inl (AgentError (''LLM service error while regenerating data for tool ''
                            @ quoted (t_name tool) @ '': '' @ message)
                  (Some (t_name tool)) None));
         request = RegenerateParameters (t_name tool) (t_parametersSchema tool) context errorMessage
     in case askGateway (getStructuredParameters (a_llmService ag)) request s of
          (Inl message, s1) \<Rightarrow> (rethrow message, s1)
        | (Inr response, s1) \<Rightarrow>
            if \<not> sr_isValid response then
              (rethrow (''Failed to regenerate valid structured data for tool ''
                        @ quoted (t_name tool) @ '': '' @ responseErrorText response), s1)
            else
              (let extractedData = (case sr_structuredData response of None \<Rightarrow> [] | Some d \<Rightarrow> d);
                   validationResult = validateAgainstSchema extractedData (t_parametersSchema tool)
               in if \<not> isValid validationResult then
                    (rethrow (''Regenerated data failed strict validation for tool ''
                              @ quoted (t_name tool) @ '': '' @ validationErrorText validationResult), s1)
                  else (Inr (case vr_data validationResult of None \<Rightarrow> [] | Some d \<Rightarrow> d), s1)))"

text \<open>
  The regeneration step at the head of a retry (lines 505-551): the arguments to use on
  this attempt. A failure of the regeneration, or of the validation of the regenerated
  data, is caught and logged, and the previous arguments stay.
\<close>

definition regenerateOnRetry ::
  "'w agent \<Rightarrow> 'w tool \<Rightarrow> toolCall \<Rightarrow> bool \<Rightarrow> nat \<Rightarrow> jrecord \<Rightarrow> string option \<Rightarrow> 'w sys
     \<Rightarrow> jrecord \<times> 'w sys" where
  "regenerateOnRetry ag tool toolCall shouldRegenerateOnRetry attempt finalArgs lastError s =
    (case lastError of
       Some errorMessage \<Rightarrow>
         if attempt > 1 \<and> shouldRegenerateOnRetry then
           (case regenerateStructuredDataWithError ag tool
                   (case tc_context toolCall of None \<Rightarrow> [] | Some c \<Rightarrow> c) errorMessage s of
              (Inl regenerationError, s1) \<Rightarrow> (finalArgs, s1)
            | (Inr regeneratedArgs, s1) \<Rightarrow>
                (let regeneratedValidationResult =
                       validateAgainstSchema regeneratedArgs (t_parametersSchema tool)
                 in if \<not> isValid regeneratedValidationResult then (finalArgs, s1)
                    else ((case vr_data regeneratedValidationResult of
                             None \<Rightarrow> regeneratedArgs | Some d \<Rightarrow> d), s1)))
         else (finalArgs, s)
     | None \<Rightarrow> (finalArgs, s))"

text \<open>
  The retry loop of \<open>callTool\<close> (lines 502-586), from attempt \<open>attempt\<close> on, with the
  current \<open>finalArgs\<close> and \<open>lastError\<close>; after the last attempt, the final \<open>throw\<close>.
\<close>

function retryLoop ::
  "'w agent \<Rightarrow> 'w tool \<Rightarrow> toolCall \<Rightarrow> bool \<Rightarrow> nat \<Rightarrow> jrecord \<Rightarrow> string option \<Rightarrow> 'w sys
     \<Rightarrow> (agentError + jval) \<times> 'w sys" where
  "retryLoop ag tool toolCall shouldRegenerateOnRetry attempt finalArgs lastError s =
    (if attempt \<le> a_maxRetries ag then
       (case regenerateOnRetry ag tool toolCall shouldRegenerateOnRetry attempt finalArgs lastError s of
          (args, s1) \<Rightarrow>
            (case runExecute tool args s1 of
               (Inr result, s2) \<Rightarrow> (Inr result, s2)
             | (Inl message, s2) \<Rightarrow>
                 retryLoop ag tool toolCall shouldRegenerateOnRetry (attempt + 1) args (Some message)
                   (if attempt < a_maxRetries ag then sleep (a_retryDelay ag) s2 else s2)))
     else
       (Inl (AgentError
               (''Tool '' @ quoted (tc_tool toolCall) @ '' failed after ''
                @ string_of_nat (a_maxRetries ag) @ '' attempts: ''
                @ (case lastError of None \<Rightarrow> ''undefined'' | Some m \<Rightarrow> m))
               (Some (tc_tool toolCall)) (Some (a_maxRetries ag))), s))"
  by pat_completeness auto
termination
  by (relation "measure (\<lambda>(ag, tool, toolCall, regen, attempt, finalArgs, lastError, s).
                   a_maxRetries ag + 1 - attempt)") auto

text \<open>
  \<open>callTool\<close> up to the retry loop (lines 413-499): the tool, the validated arguments
  and \<open>shouldRegenerateOnRetry\<close>, or the error thrown before the first attempt.
\<close>

definition prepareToolCall ::
  "'w agent \<Rightarrow> toolCall \<Rightarrow> bool \<Rightarrow> 'w sys \<Rightarrow> (agentError + 'w tool \<times> jrecord \<times> bool) \<times> 'w sys" where
  "prepareToolCall ag toolCall orchestratorCall s =
    (let toolName = tc_tool toolCall;
         args = (case tc_arguments toolCall of None \<Rightarrow> [] | Some a \<Rightarrow> a);
         context = tc_context toolCall
     in case getTool ag toolName of
          Inl e \<Rightarrow> (Inl e, s)
        | Inr tool \<Rightarrow>
           (let hasArguments = (args \<noteq> []);
                hasContext = (case context of None \<Rightarrow> False | Some c \<Rightarrow> c \<noteq> [])
            in if \<not> hasArguments \<and> \<not> hasContext then
                 (Inl (AgentError (''Tool call for '' @ quoted toolName
                         @ '' requires either '' @ quoted ''arguments'' @ '' or '' @ quoted ''context''
                         @ '' to be provided'') (Some toolName) None), s)
               else
                 (case (if (t_agentic tool \<and> \<not> hasArguments \<and> hasContext) \<or> orchestratorCall then
                          (case generateStructuredDataForTool ag tool
                                  (case context of
                                     None \<Rightarrow> ''Generate Arguments for the given tool.''
                                   | Some c \<Rightarrow> if c = [] then ''Generate Arguments for the given tool.'' else c) s of
                             (Inl extractionError, s1) \<Rightarrow>
                               (Inl (AgentError (''Failed to extract parameters for agentic tool ''
                                       @ quoted toolName @ '': '' @ ae_message extractionError)
                                       (Some toolName) None), s1)
                           | (Inr generatedArgs, s1) \<Rightarrow> (Inr generatedArgs, s1))
                        else if t_agentic tool \<and> hasArguments then (Inr args, s)
                        else if t_agentic tool \<and> \<not> hasContext then
                          (Inl (AgentError (''Agentic tool '' @ quoted toolName
                                  @ '' requires either '' @ quoted ''arguments'' @ '' or '' @ quoted ''context''
                                  @ '' to be provided'') (Some toolName) None), s)
                        else (Inr args, s)) of
                    (Inl e, s1) \<Rightarrow> (Inl e, s1)
                  | (Inr finalArgs, s1) \<Rightarrow>
                      (let validationResult = validateAgainstSchema finalArgs (t_parametersSchema tool)
                       in if \<not> isValid validationResult then
                            (Inl (AgentError (''Tool call validation failed for '' @ quoted toolName
                                    @ '': '' @ validationErrorText validationResult) (Some toolName) None), s1)
                          else
                            (Inr (tool,
                                  (case vr_data validationResult of None \<Rightarrow> finalArgs | Some d \<Rightarrow> d),
                                  t_agentic tool \<and> \<not> hasArguments \<and> hasContext), s1)))))"

text \<open>\<open>callTool\<close> (lines 409-586).\<close>

definition callTool ::
  "'w agent \<Rightarrow> toolCall \<Rightarrow> bool \<Rightarrow> 'w sys \<Rightarrow> (agentError + jval) \<times> 'w sys" where
  "callTool ag toolCall orchestratorCall s =
    (case prepareToolCall ag toolCall orchestratorCall s of
       (Inl e, s1) \<Rightarrow> (Inl e, s1)
     | (Inr (tool, finalArgs, shouldRegenerateOnRetry), s1) \<Rightarrow>
         retryLoop ag tool toolCall shouldRegenerateOnRetry 1 finalArgs None s1)"

text \<open>
  \<open>callTools\<close> (lines 604-625): the loop, with the results so far. The inner call is
  \<open>this.callTool(toolCall)\<close>, whose second parameter takes its default \<open>false\<close>. Every
  error of \<open>callTool\<close> is an \<open>AgentError\<close> and is thrown again as it is.
\<close>

fun callToolsLoop ::
  "'w agent \<Rightarrow> jval list \<Rightarrow> toolCall list \<Rightarrow> 'w sys \<Rightarrow> (agentError + jval list) \<times> 'w sys" where
  "callToolsLoop ag results [] s = (Inr results, s)"
| "callToolsLoop ag results (toolCall # rest) s =
     (case callTool ag toolCall False s of
        (Inl e, s1) \<Rightarrow> (Inl e, s1)
      | (Inr result, s1) \<Rightarrow> callToolsLoop ag (results @ [result]) rest s1)"

definition callTools ::
  "'w agent \<Rightarrow> toolCall list \<Rightarrow> bool \<Rightarrow> 'w sys \<Rightarrow> (agentError + jval list) \<times> 'w sys" where
  "callTools ag toolCalls orchestratorCall s = callToolsLoop ag [] toolCalls s"

section \<open>The orchestrator (class \<open>Orchestrator\<close> in implementations/agent.ts)\<close>

text \<open>\<open>OrchestratorError(message, stepNumber?)\<close>.\<close>

datatype orchestratorError =
  OrchestratorError (oe_message: string) (oe_stepNumber: "int option")

text \<open>
  The fields of \<open>Orchestrator\<close> that \<open>execute\<close> reads. \<open>JSON.stringify\<close> is a built-in of
  the language and is kept as a parameter.
\<close>

record 'w orchestrator =
  o_agent :: "'w agent"
  o_maxSteps :: nat
  o_stringify :: "jval \<Rightarrow> string"

definition maxPlanRegenerations :: nat where
  "maxPlanRegenerations = 3"

text \<open>\<open>createInitialState\<close> (lines 940-949).\<close>

definition createInitialState :: "string \<Rightarrow> orchestratorState" where
  "createInitialState userQuery =
     \<lparr> os_userQuery = userQuery, os_plan = None, os_steps = [], os_currentStepIndex = 0,
       os_status = StIdle, os_conversationHistory = [], os_context = [], os_error = None \<rparr>"

text \<open>\<open>this.state.steps.find((s) => s.stepNumber === depNum)\<close>.\<close>

definition findStep :: "executionStep list \<Rightarrow> int \<Rightarrow> executionStep option" where
  "findStep steps depNum = find (\<lambda>s. es_stepNumber s = depNum) steps"

text \<open>\<open>step.dependsOn\<close>, with an absent list read as the empty one.\<close>

definition dependenciesOf :: "executionStep \<Rightarrow> int list" where
  "dependenciesOf step = (case es_dependsOn step of None \<Rightarrow> [] | Some ds \<Rightarrow> ds)"

text \<open>\<open>depStep && depStep.completed\<close>.\<close>

definition dependencySatisfied :: "executionStep list \<Rightarrow> int \<Rightarrow> bool" where
  "dependencySatisfied steps depNum =
     (case findStep steps depNum of None \<Rightarrow> False | Some depStep \<Rightarrow> es_completed depStep)"

text \<open>The \<open>unsatisfiedDeps\<close> of \<open>executeStep\<close> (lines 1372-1376).\<close>

definition unsatisfiedDeps :: "executionStep list \<Rightarrow> executionStep \<Rightarrow> int list" where
  "unsatisfiedDeps steps step = filter (\<lambda>depNum. \<not> dependencySatisfied steps depNum) (dependenciesOf step)"

text \<open>
  \<open>findNextExecutableStep\<close> (lines 1625-1656). The source returns a reference to an
  element of \<open>state.steps\<close>; the model returns its index.
\<close>

definition findNextExecutableStep :: "orchestratorState \<Rightarrow> nat option" where
  "findNextExecutableStep st =
    (let steps = os_steps st;
         pendingSteps = filter (\<lambda>i. \<not> es_completed (steps ! i)) [0..<length steps]
     in case pendingSteps of
          [] \<Rightarrow> None
        | firstPending # _ \<Rightarrow>
            (let executableSteps =
                   filter (\<lambda>i. list_all (dependencySatisfied steps) (dependenciesOf (steps ! i)))
                     pendingSteps
             in case executableSteps of
                  [] \<Rightarrow> Some firstPending
                | first # rest \<Rightarrow>
                    Some (foldl (\<lambda>min i. if es_stepNumber (steps ! i) < es_stepNumber (steps ! min)
                                          then i else min) first rest)))"

text \<open>The rendering of a dependency's result in the distilled context (lines 1325-1342).\<close>

fun renderResult :: "(jval \<Rightarrow> string) \<Rightarrow> jval \<Rightarrow> string" where
  "renderResult stringify (JStr s) = s"
| "renderResult stringify (JNum n) = string_of_int n"
| "renderResult stringify (JBool b) = (if b then ''true'' else ''false'')"
| "renderResult stringify v = stringify v"

text \<open>\<open>distillContextForAgenticTool\<close> (lines 1308-1358).\<close>

definition distillContextForAgenticTool ::
  "(jval \<Rightarrow> string) \<Rightarrow> orchestratorState \<Rightarrow> executionStep \<Rightarrow> string" where
  "distillContextForAgenticTool stringify st step =
    (let context = ''Task: '' @ os_userQuery st @ [CHR 0x0A, CHR 0x0A] @ ''Current action: ''
                   @ es_description step;
         dataPoints = concat (map (\<lambda>depStepNum.
             case findStep (os_steps st) depStepNum of
               None \<Rightarrow> []
             | Some depStep \<Rightarrow>
                 (case es_result depStep of
                    None \<Rightarrow> []
                  | Some res \<Rightarrow>
                      if es_completed depStep \<and> res \<noteq> JUndefined then
                        [''Step '' @ string_of_int (es_stepNumber depStep) @ '' (''
                         @ es_description depStep @ ''):'' @ [CHR 0x0A] @ renderResult stringify res]
                      else []))
           (dependenciesOf step))
     in if dataPoints \<noteq> [] then
          context @ [CHR 0x0A, CHR 0x0A] @ ''Available data from previous steps:'' @ [CHR 0x0A]
          @ join [CHR 0x0A, CHR 0x0A] dataPoints
        else context)"

text \<open>
  \<open>executeStep\<close> (lines 1368-1444) on the step at index \<open>i\<close>. The dependency check throws
  before the \<open>try\<close> block, so it leaves the state as it is; a failure of \<open>callTool\<close> is
  recorded in the step and thrown again.
\<close>

definition executeStep ::
  "'w orchestrator \<Rightarrow> nat \<Rightarrow> orchestratorState \<Rightarrow> 'w sys
     \<Rightarrow> (orchestratorError + jval) \<times> orchestratorState \<times> 'w sys" where
  "executeStep orch i st s =
    (let step = os_steps st ! i;
         unsatisfied = unsatisfiedDeps (os_steps st) step
     in if unsatisfied \<noteq> [] then
          (Inl (OrchestratorError
                  (''Step '' @ string_of_int (es_stepNumber step) @ '' depends on steps ''
                   @ join '', '' (map string_of_int unsatisfied) @ '' which are not yet completed'')
                  (Some (es_stepNumber step))), st, s)
        else
          (let st1 = st\<lparr> os_status := StExecuting \<rparr>;
               isAgentic = (case find (\<lambda>t. t_name t = tc_tool (es_toolCall step))
                                   (a_tools (o_agent orch)) of
                              None \<Rightarrow> False | Some t \<Rightarrow> t_agentic t);
               distilledContext = (if isAgentic
                                   then distillContextForAgenticTool (o_stringify orch) st1 step
                                   else os_userQuery st1);
               toolCallWithContext =
                 (if isAgentic \<and> (case tc_arguments (es_toolCall step) of
                                     None \<Rightarrow> True | Some a \<Rightarrow> a = [])
                  then (es_toolCall step)\<lparr> tc_context := Some distilledContext \<rparr>
                  else es_toolCall step)
           in case callTool (o_agent orch) toolCallWithContext True s of
                (Inr result, s1) \<Rightarrow>
                  (Inr result,
                   st1\<lparr> os_steps := (os_steps st1)[i := step\<lparr> es_completed := True,
                                                             es_result := Some result \<rparr>],
                        os_context := setField (os_context st1)
                                        (''step_'' @ string_of_int (es_stepNumber step) @ ''_result'') result,
                        os_conversationHistory := os_conversationHistory st1 @
                          [''Step '' @ string_of_int (es_stepNumber step) @ '' completed: ''
                           @ es_description step] \<rparr>,
                   s1)
              | (Inl e, s1) \<Rightarrow>
                  (Inl (OrchestratorError
                          (''Step '' @ string_of_int (es_stepNumber step) @ '' execution failed: ''
                           @ ae_message e) (Some (es_stepNumber step))),
                   st1\<lparr> os_steps := (os_steps st1)[i := step\<lparr> es_error := Some (ae_message e) \<rparr>],
                        os_conversationHistory := os_conversationHistory st1 @
                          [''Step '' @ string_of_int (es_stepNumber step) @ '' failed: ''
                           @ ae_message e] \<rparr>,
                   s1)))"

text \<open>\<open>generatePlan\<close> (lines 1042-1176).\<close>

definition generatePlan ::
  "'w orchestrator \<Rightarrow> string \<Rightarrow> string option \<Rightarrow> planningResponse option
     \<Rightarrow> executionStep list option \<Rightarrow> orchestratorState \<Rightarrow> 'w sys
     \<Rightarrow> (orchestratorError + planningResponse) \<times> orchestratorState \<times> 'w sys" where
  "generatePlan orch userQuery systemPrompt previousPlan completedSteps st s =
    (let isRegeneration = (previousPlan \<noteq> None);
         st1 = st\<lparr> os_status := StPlanning \<rparr>;
         request = PlanRequest userQuery systemPrompt previousPlan completedSteps
     in case askGateway (getStructuredPlan (a_llmService (o_agent orch))) request s of
          (Inl message, s1) \<Rightarrow>
            (Inl (OrchestratorError (''Planning failed: '' @ message) None), st1, s1)
        | (Inr response, s1) \<Rightarrow>
            (case (if sr_isValid response then sr_structuredData response else None) of
               None \<Rightarrow>
                 (Inl (OrchestratorError (''Planning failed: Failed to generate valid plan: ''
                         @ responseErrorText response) None), st1, s1)
             | Some planData \<Rightarrow>
                 (Inr planData,
                  st1\<lparr> os_plan := Some (pr_plan planData),
                       os_conversationHistory := os_conversationHistory st1 @
                         [(if isRegeneration then ''Plan regenerated: '' else ''Plan generated: '')
                          @ pr_plan planData] \<rparr>,
                  s1)))"

text \<open>\<open>convertToExecutionSteps\<close> (lines 1185-1198).\<close>

definition convertToExecutionSteps :: "planningResponse \<Rightarrow> executionStep list" where
  "convertToExecutionSteps planResponse =
     map (\<lambda>step.
            \<lparr> es_stepNumber = ps_stepNumber step,
              es_description = ps_description step,
              es_toolCall = \<lparr> tc_tool = ps_tool step,
                               tc_arguments = Some (case ps_arguments step of None \<Rightarrow> [] | Some a \<Rightarrow> a),
                               tc_context = None \<rparr>,
              es_completed = False,
              es_result = None,
              es_error = None,
              es_dependsOn = Some (case ps_dependsOn step of None \<Rightarrow> [] | Some ds \<Rightarrow> ds) \<rparr>)
         (case pr_steps planResponse of None \<Rightarrow> [] | Some steps \<Rightarrow> steps)"

text \<open>\<open>determineNextStep\<close> (lines 1207-1298); it only reads the state.\<close>

definition determineNextStep ::
  "'w orchestrator \<Rightarrow> orchestratorState \<Rightarrow> 'w sys \<Rightarrow> (orchestratorError + nextStepResponse) \<times> 'w sys" where
  "determineNextStep orch st s =
    (case askGateway (getStructuredNextStep (a_llmService (o_agent orch))) (NextStepRequest st) s of
       (Inl message, s1) \<Rightarrow>
         (Inl (OrchestratorError (''Next step decision failed: '' @ message) None), s1)
     | (Inr response, s1) \<Rightarrow>
         (case (if sr_isValid response then sr_structuredData response else None) of
            None \<Rightarrow>
              (Inl (OrchestratorError (''Next step decision failed: Failed to determine next step: ''
                      @ responseErrorText response) None), s1)
          | Some decision \<Rightarrow> (Inr decision, s1)))"

text \<open>An \<open>OrchestratorResult\<close> over the current state; \<open>steps\<close> are the completed ones.\<close>

definition resultOf :: "bool \<Rightarrow> string \<Rightarrow> orchestratorState \<Rightarrow> string option \<Rightarrow> orchestratorResult" where
  "resultOf success finalResponse st err =
     \<lparr> or_success = success, or_finalResponse = finalResponse,
       or_steps = filter es_completed (os_steps st), or_state = st, or_error = err \<rparr>"

text \<open>The outer \<open>catch\<close> of \<open>execute\<close> (lines 1602-1616).\<close>

definition executionFailed :: "string \<Rightarrow> orchestratorState \<Rightarrow> orchestratorResult" where
  "executionFailed errorMessage st =
     resultOf False (''Execution failed: '' @ errorMessage)
       (st\<lparr> os_status := StError, os_error := Some errorMessage \<rparr>) (Some errorMessage)"

text \<open>
  The merge of a regenerated plan into the state (lines 1549, 1562-1583): the completed
  steps stay, the new steps are numbered from \<open>maxStepNumber + 1\<close> on, and a new step whose
  number a completed step already has is dropped.
\<close>

definition renumber :: "int \<Rightarrow> executionStep list \<Rightarrow> executionStep list" where
  "renumber maxStepNumber newSteps =
     map (\<lambda>(index, step). step\<lparr> es_stepNumber := maxStepNumber + int index + 1 \<rparr>)
       (zip [0..<length newSteps] newSteps)"

definition mergeRegeneratedPlan :: "executionStep list \<Rightarrow> planningResponse \<Rightarrow> executionStep list" where
  "mergeRegeneratedPlan steps planResponse =
    (let completedSteps = filter es_completed steps;
         maxStepNumber = foldl max 0 (map es_stepNumber steps);
         newSteps = renumber maxStepNumber (convertToExecutionSteps planResponse)
     in completedSteps @
        filter (\<lambda>newStep. \<not> list_ex (\<lambda>cs. es_stepNumber cs = es_stepNumber newStep) completedSteps)
          newSteps)"

text \<open>Facts needed for the termination of the execution loop: a successful step
  leaves one pending step fewer.\<close>

lemma foldl_choice_mem: "foldl (\<lambda>m i. if P i m then i else m) a xs \<in> set (a # xs)"
  by (induction xs arbitrary: a) auto

lemma findNext_pending:
  assumes "findNextExecutableStep st = Some i"
  shows "i < length (os_steps st) \<and> \<not> es_completed (os_steps st ! i)"
proof -
  let ?steps = "os_steps st"
  let ?pending = "filter (\<lambda>i. \<not> es_completed (?steps ! i)) [0..<length ?steps]"
  let ?exec = "filter (\<lambda>i. list_all (dependencySatisfied ?steps) (dependenciesOf (?steps ! i))) ?pending"
  have "i \<in> set ?pending"
  proof (cases ?pending)
    case Nil
    with assms show ?thesis by (simp add: findNextExecutableStep_def Let_def)
  next
    case (Cons p ps)
    note P = this
    show ?thesis
    proof (cases ?exec)
      case Nil
      with P assms have "i = p" by (simp add: findNextExecutableStep_def Let_def)
      with P show ?thesis by simp
    next
      case (Cons e es)
      with P assms have "i = foldl (\<lambda>min i. if es_stepNumber (?steps ! i) < es_stepNumber (?steps ! min)
                                          then i else min) e es"
        by (simp add: findNextExecutableStep_def Let_def)
      then have "i \<in> set (e # es)"
        using foldl_choice_mem [of "\<lambda>i m. es_stepNumber (?steps ! i) < es_stepNumber (?steps ! m)" e es]
        by simp
      then have "i \<in> set ?exec" using Cons by simp
      then show ?thesis by simp
    qed
  qed
  then show ?thesis by simp
qed

lemma executeStep_success_steps:
  assumes "executeStep orch i st s = (Inr r, st1, s1)"
  shows "os_steps st1 = (os_steps st)[i := (os_steps st ! i)\<lparr> es_completed := True, es_result := Some r \<rparr>]"
  using assms
  by (auto simp: executeStep_def Let_def split: if_splits prod.splits sum.splits)

lemma pending_decreases:
  assumes "i < length xs" "\<not> es_completed (xs ! i)"
  shows "length (filter (\<lambda>s. \<not> es_completed s) (xs[i := (xs ! i)\<lparr> es_completed := True, es_result := r \<rparr>]))
         < length (filter (\<lambda>s. \<not> es_completed s) xs)"
  using assms
proof (induction xs arbitrary: i)
  case Nil
  then show ?case by simp
next
  case (Cons x xs)
  show ?case
  proof (cases i)
    case 0
    with Cons.prems show ?thesis by (simp add: less_Suc_eq_le)
  next
    case (Suc j)
    with Cons show ?thesis by auto
  qed
qed

text \<open>
  One pass through the body of the \<open>while\<close> loop of \<open>execute\<close> (lines 1488-1590), in a
  state \<open>st\<close> with \<open>planRegenerationCount\<close> regenerations made: either the run returns
  its result, or the loop goes round again with the count, the plan and the state it
  then has. An error thrown by \<open>determineNextStep\<close> or \<open>generatePlan\<close> inside the loop
  reaches the outer \<open>catch\<close> of \<open>execute\<close> (lines 1602-1616).
\<close>

datatype 'w iteration =
    Finished orchestratorResult "'w sys"
  | Continue nat planningResponse orchestratorState "'w sys"

definition executeIteration ::
  "'w orchestrator \<Rightarrow> string \<Rightarrow> string option \<Rightarrow> nat \<Rightarrow> planningResponse \<Rightarrow> orchestratorState
     \<Rightarrow> 'w sys \<Rightarrow> 'w iteration" where
  "executeIteration orch userQuery systemPrompt planRegenerationCount planResponse st s =
    (case findNextExecutableStep st of
       None \<Rightarrow>
         (let st1 = st\<lparr> os_status := StCompleted \<rparr>
          in case determineNextStep orch st1 s of
               (Inl e, s1) \<Rightarrow> Finished (executionFailed (oe_message e) st1) s1
             | (Inr finalDecision, s1) \<Rightarrow>
                 Finished (resultOf True
                    (orElse (case ns_finalResponse finalDecision of None \<Rightarrow> [] | Some r \<Rightarrow> r)
                       ''All planned steps completed successfully.'') st1 None) s1)
     | Some i \<Rightarrow>
         if length (os_steps st) \<ge> o_maxSteps orch then
           Finished (resultOf True ''Execution completed (reached maximum steps limit).''
                       (st\<lparr> os_status := StCompleted \<rparr>) None) s
         else
           (case executeStep orch i
                   (st\<lparr> os_currentStepIndex := es_stepNumber (os_steps st ! i) - 1 \<rparr>) s of
              (Inr result, st1, s1) \<Rightarrow> Continue planRegenerationCount planResponse st1 s1
            | (Inl stepError, st1, s1) \<Rightarrow>
                if planRegenerationCount \<ge> maxPlanRegenerations then
                  Finished (resultOf False
                     (''Execution failed after '' @ string_of_nat maxPlanRegenerations
                      @ '' plan regenerations: '' @ oe_message stepError)
                     (st1\<lparr> os_status := StError, os_error := Some (oe_message stepError) \<rparr>)
                     (Some (oe_message stepError))) s1
                else
                  (case generatePlan orch userQuery systemPrompt (Some planResponse)
                          (Some (filter es_completed (os_steps st1))) st1 s1 of
                     (Inl e, st2, s2) \<Rightarrow> Finished (executionFailed (oe_message e) st2) s2
                   | (Inr newPlan, st2, s2) \<Rightarrow>
                       Continue (planRegenerationCount + 1) newPlan
                         (st2\<lparr> os_steps := mergeRegeneratedPlan (os_steps st2) newPlan \<rparr>) s2)))"

text \<open>When the loop goes round again, either a step has been completed, or one more plan
  has been generated and the count was below its ceiling.\<close>

lemma executeIteration_continue:
  assumes "executeIteration orch userQuery systemPrompt count planResponse st s
             = Continue count' plan' st' s'"
  shows "(count' = count
            \<and> length (filter (\<lambda>s. \<not> es_completed s) (os_steps st'))
               < length (filter (\<lambda>s. \<not> es_completed s) (os_steps st)))
         \<or> (count' = count + 1 \<and> count < maxPlanRegenerations)"
proof (cases "findNextExecutableStep st")
  case None
  with assms show ?thesis
    by (simp add: executeIteration_def Let_def split: prod.splits sum.splits)
next
  case (Some i)
  let ?st = "st\<lparr> os_currentStepIndex := es_stepNumber (os_steps st ! i) - 1 \<rparr>"
  from findNext_pending [OF Some]
  have i: "i < length (os_steps st)" "\<not> es_completed (os_steps st ! i)" by simp_all
  obtain r st1 s1 where e: "executeStep orch i ?st s = (r, st1, s1)"
    by (cases "executeStep orch i ?st s") auto
  show ?thesis
  proof (cases r)
    case (Inr result)
    with assms Some e have "count' = count" "st' = st1"
      by (simp_all add: executeIteration_def split: if_splits)
    moreover from executeStep_success_steps [OF e [unfolded Inr]] i
    have "length (filter (\<lambda>s. \<not> es_completed s) (os_steps st1))
            < length (filter (\<lambda>s. \<not> es_completed s) (os_steps st))"
      by (simp add: pending_decreases)
    ultimately show ?thesis by simp
  next
    case (Inl stepError)
    with assms Some e show ?thesis
      by (auto simp: executeIteration_def not_le split: if_splits prod.splits sum.splits)
  qed
qed

text \<open>
  The \<open>while\<close> loop of \<open>execute\<close> (lines 1487-1591) with the return that follows it
  (lines 1593-1601).
\<close>

function executeLoop ::
  "'w orchestrator \<Rightarrow> string \<Rightarrow> string option \<Rightarrow> nat \<Rightarrow> planningResponse \<Rightarrow> orchestratorState
     \<Rightarrow> 'w sys \<Rightarrow> orchestratorResult \<times> 'w sys" where
  "executeLoop orch userQuery systemPrompt planRegenerationCount planResponse st s =
    (if planRegenerationCount \<le> maxPlanRegenerations then
       (case executeIteration orch userQuery systemPrompt planRegenerationCount planResponse st s of
          Finished result s1 \<Rightarrow> (result, s1)
        | Continue count plan st1 s1 \<Rightarrow> executeLoop orch userQuery systemPrompt count plan st1 s1)
     else
       (resultOf True ''Execution completed (reached maximum plan regenerations).''
          (st\<lparr> os_status := StCompleted \<rparr>) None, s))"
  by pat_completeness auto
termination
proof (relation "measures [\<lambda>(orch, userQuery, systemPrompt, count, planResponse, st, s).
                              maxPlanRegenerations + 1 - count,
                           \<lambda>(orch, userQuery, systemPrompt, count, planResponse, st, s).
                              length (filter (\<lambda>s. \<not> es_completed s) (os_steps st))]",
       goal_cases)
  case 1
  then show ?case by simp
next
  case (2 orch userQuery systemPrompt count planResponse st s count' plan' st' s')
  from executeIteration_continue [OF 2(2)] 2(1) show ?case by auto
qed

text \<open>\<open>execute\<close> (lines 1461-1617).\<close>

definition execute ::
  "'w orchestrator \<Rightarrow> string \<Rightarrow> string option \<Rightarrow> 'w sys \<Rightarrow> orchestratorResult \<times> 'w sys" where
  "execute orch userQuery systemPrompt s =
    (case generatePlan orch userQuery systemPrompt None None (createInitialState userQuery) s of
       (Inl e, st1, s1) \<Rightarrow> (executionFailed (oe_message e) st1, s1)
     | (Inr planResponse, st1, s1) \<Rightarrow>
         (let st2 = st1\<lparr> os_steps := convertToExecutionSteps planResponse \<rparr>
          in if pr_isComplete planResponse \<and> os_steps st2 = [] then
               (\<lparr> or_success = True,
                  or_finalResponse = ''Task completed successfully without requiring tool calls.'',
                  or_steps = [],
                  or_state = st2\<lparr> os_status := StCompleted \<rparr>,
                  or_error = None \<rparr>, s1)
             else executeLoop orch userQuery systemPrompt 0 planResponse st2 s1))"

section \<open>Verified properties\<close>

declare validateProperty.simps [simp del] validateAgainstOpenAPISchema.simps [simp del]
declare string_of_nat.simps [simp del]
declare retryLoop.simps [simp del] executeLoop.simps [simp del]

subsection \<open>Facts about the validator\<close>

lemma set_lefts: "set (lefts rs) = {e. Inl e \<in> set rs}"
  by (induction rs) (auto simp: lefts_def split: sum.splits)

lemma set_rights: "set (rights rs) = {v. Inr v \<in> set rs}"
  by (induction rs) (auto simp: rights_def split: sum.splits)

lemma join_nonempty: "xs \<noteq> [] \<Longrightarrow> \<forall>x \<in> set xs. x \<noteq> [] \<Longrightarrow> join sep xs \<noteq> []"
  by (induction sep xs rule: join.induct) auto

lemma constraintError_nonempty: "constraintError v p path = Some e \<Longrightarrow> e \<noteq> []"
  by (auto simp: constraintError_def Let_def split: if_splits)

text \<open>Every error message of \<open>validateProperty\<close> is a non-empty string, so the
  fallbacks \<open>|| "Invalid field: ..."\<close> and \<open>|| "Invalid item"\<close> never apply.\<close>

lemma validateProperty_error_nonempty:
  assumes "validateProperty v p path = Inl e"
  shows "e \<noteq> []"
proof -
  have "\<forall>x \<in> set (lefts (map (\<lambda>(i, item).
                                  case validateProperty item q
                                         (path @ ''['' @ string_of_nat i @ '']'') of
                                    Inl e \<Rightarrow> Inl (orElse e ''Invalid item'')
                                  | Inr validated \<Rightarrow> Inr (coalesce validated item))
                                xs)). x \<noteq> []" for q and xs :: "(nat \<times> jval) list"
    by (auto simp: set_lefts orElse_def split: sum.splits if_splits)
  then show ?thesis
    using assms
    by (auto simp: validateProperty.simps [of v p path] Let_def join_nonempty
             dest: constraintError_nonempty split: if_splits option.splits)
qed

subsection \<open>The error list of a failed validation\<close>

text \<open>
  Whenever \<open>validateAgainstOpenAPISchema\<close> reports a failure, the error list it returns
  holds the errors of all three loops: an entry for every required field that the first
  loop finds missing, the error of every declared field that is checked and found
  invalid, and an entry for every key of the data that \<open>in\<close> does not find in the
  properties of the schema. No error hides another one.
\<close>

lemma validation_errors_collected:
  assumes "\<not> isValid (validateAgainstOpenAPISchema data schema)"
  shows "\<exists>errs. vr_errors (validateAgainstOpenAPISchema data schema) = Some errs
     \<and> (\<forall>f \<in> set (case s_required schema of None \<Rightarrow> [] | Some r \<Rightarrow> r).
           \<not> hasProperty f data \<or> nullish (getProperty data f)
           \<longrightarrow> ''Missing required field: '' @ f \<in> set errs)
     \<and> (\<forall>(f, p) \<in> set (s_properties schema). \<forall>e.
           (f \<in> set (case s_required schema of None \<Rightarrow> [] | Some r \<Rightarrow> r)
              \<or> \<not> nullish (getProperty data f))
           \<and> validateProperty (getProperty data f) p f = Inl e
           \<longrightarrow> e \<in> set errs)
     \<and> (\<forall>k \<in> set (ownKeys data).
           \<not> hasKey k (s_properties schema) \<longrightarrow> ''Unexpected field: '' @ k \<in> set errs)"
proof -
  let ?req = "case s_required schema of None \<Rightarrow> [] | Some r \<Rightarrow> r"
  let ?results = "map (\<lambda>(fieldName, property).
                      case validateProperty (getProperty data fieldName) property fieldName of
                        Inl e \<Rightarrow> Inl (orElse e (''Invalid field: '' @ fieldName))
                      | Inr validated \<Rightarrow>
                          Inr (fieldName, coalesce validated (getProperty data fieldName)))
                    (checkedProperties data ?req (s_properties schema))"
  let ?errs = "missingErrors data ?req @ lefts ?results @ unexpectedErrors data (s_properties schema)"
  have ne: "?errs \<noteq> []"
    using assms by (simp add: validateAgainstOpenAPISchema.simps Let_def)
  then have e: "vr_errors (validateAgainstOpenAPISchema data schema) = Some ?errs"
    by (simp add: validateAgainstOpenAPISchema.simps Let_def)
  have m: "\<forall>f \<in> set ?req. \<not> hasProperty f data \<or> nullish (getProperty data f)
           \<longrightarrow> ''Missing required field: '' @ f \<in> set ?errs"
    by (auto simp: missingErrors_def)
  have i: "\<forall>(f, p) \<in> set (s_properties schema). \<forall>e.
           (f \<in> set ?req \<or> \<not> nullish (getProperty data f))
           \<and> validateProperty (getProperty data f) p f = Inl e
           \<longrightarrow> e \<in> set ?errs"
  proof (clarify)
    fix f p e
    assume fp: "(f, p) \<in> set (s_properties schema)"
      and c: "f \<in> set ?req \<or> \<not> nullish (getProperty data f)"
      and v: "validateProperty (getProperty data f) p f = Inl e"
    from fp c have "(f, p) \<in> set (checkedProperties data ?req (s_properties schema))"
      by (auto simp: checkedProperties_def)
    then have "Inl (orElse e (''Invalid field: '' @ f)) \<in> set ?results"
      using v by (force simp: image_iff)
    moreover have "orElse e (''Invalid field: '' @ f) = e"
      using validateProperty_error_nonempty [OF v] by (simp add: orElse_def)
    ultimately show "e \<in> set ?errs"
      by (simp add: set_lefts)
  qed
  have u: "\<forall>k \<in> set (ownKeys data).
           \<not> hasKey k (s_properties schema) \<longrightarrow> ''Unexpected field: '' @ k \<in> set ?errs"
    by (auto simp: unexpectedErrors_def)
  from e m i u show ?thesis by blast
qed

text \<open>
  A record with three faults at once against a schema that requires \<open>color\<close> and \<open>size\<close>:
  \<open>size\<close> is missing (which both the first loop and the property loop report), \<open>n\<close>
  exceeds its maximum, \<open>zz\<close> is not declared. All are reported together.
\<close>

definition exampleSchema :: openAPISchema where
  "exampleSchema =
     \<lparr> s_properties =
         [(''color'', OpenAPISchemaProperty ''string'' None None None
                        (Some [EStr ''red'', EStr ''green'']) None None None None),
          (''size'', typeOnly ''string''),
          (''n'', OpenAPISchemaProperty ''integer'' None None None None
                        (Some 0) (Some 10) None None)],
       s_required = Some [''color'', ''size''] \<rparr>"

definition faultyRecord :: jrecord where
  "faultyRecord = [(''color'', JStr ''red''), (''zz'', JNum 3), (''n'', JNum 12)]"

lemma faults_reported_together:
  "validateAgainstSchema faultyRecord (FullSchema exampleSchema) =
     \<lparr> isValid = False, vr_data = None,
       vr_errors = Some [''Missing required field: size'',
                         ''Missing required field: size'',
                         ''Field '' @ quoted ''n'' @ '' must be at most 10'',
                         ''Unexpected field: zz''] \<rparr>"
  by code_simp

text \<open>A record with a field named like a member of \<open>Object.prototype\<close>.\<close>

definition shadowingRecord :: jrecord where
  "shadowingRecord = [(''color'', JStr ''red''), (''toString'', JStr ''x'')]"

text \<open>
  Claim C3 asks for an entry for every undeclared top-level field of the data. The last
  loop (lines 273-277) tests \<open>key in schema.properties\<close>, and \<open>in\<close> also finds what the
  properties object inherits from \<open>Object.prototype\<close>, so a field named like one of its
  members is taken for a declared one. The record \<open>{color: "red", toString: "x"}\<close>,
  validated against the schema above, which declares no \<open>toString\<close>, fails with the two
  errors of the missing \<open>size\<close> and has no entry \<open>Unexpected field: toString\<close>.
\<close>

theorem inherited_name_not_reported:
  "hasOwn ''toString'' shadowingRecord
   \<and> \<not> hasOwn ''toString'' (s_properties exampleSchema)
   \<and> validateAgainstSchema shadowingRecord (FullSchema exampleSchema) =
       \<lparr> isValid = False, vr_data = None,
         vr_errors = Some [''Missing required field: size'',
                           ''Missing required field: size''] \<rparr>"
  by code_simp

subsection \<open>Facts about the trace of calls\<close>

lemma regenerate_executeCalls:
  "regenerateStructuredDataWithError ag tool ctx msg s = (r, s1) \<Longrightarrow>
     executeCalls (trace s1) = executeCalls (trace s)"
  by (auto simp: regenerateStructuredDataWithError_def askGateway_def executeCalls_def Let_def
           split: prod.splits sum.splits if_splits)

lemma generate_executeCalls:
  "generateStructuredDataForTool ag tool ctx s = (r, s1) \<Longrightarrow>
     executeCalls (trace s1) = executeCalls (trace s)"
  by (auto simp: generateStructuredDataForTool_def askGateway_def executeCalls_def Let_def
           split: prod.splits sum.splits if_splits)

lemma regenerateOnRetry_executeCalls:
  "regenerateOnRetry ag tool tc regen attempt finalArgs lastError s = (args, s1) \<Longrightarrow>
     executeCalls (trace s1) = executeCalls (trace s)"
  by (auto simp: regenerateOnRetry_def Let_def dest: regenerate_executeCalls
           split: option.splits prod.splits sum.splits if_splits)

lemma prepareToolCall_executeCalls:
  "prepareToolCall ag tc oc s = (r, s1) \<Longrightarrow> executeCalls (trace s1) = executeCalls (trace s)"
  by (auto simp: prepareToolCall_def Let_def dest: generate_executeCalls
           split: option.splits prod.splits sum.splits if_splits)

lemma runExecute_trace:
  "runExecute tool args s = (r, s1) \<Longrightarrow> trace s1 = trace s @ [ExecuteCall (t_name tool) args]"
  by (auto simp: runExecute_def split: prod.splits)

lemma runExecute_fails:
  "\<forall>a w. isl (fst (t_execute tool a w)) \<Longrightarrow> runExecute tool args s = (r, s1) \<Longrightarrow> isl r"
  by (auto simp: runExecute_def split: prod.splits) (metis fst_conv)

lemma sleep_executeCalls: "executeCalls (trace (sleep ms s)) = executeCalls (trace s)"
  by (simp add: sleep_def executeCalls_def)

lemma retryLoop_exhausts:
  shows "\<forall>a w. isl (fst (t_execute tool a w)) \<Longrightarrow>
    attempt \<le> a_maxRetries ag + 1 \<Longrightarrow>
    \<exists>m s'. retryLoop ag tool tc regen attempt finalArgs lastError s =
             (Inl (AgentError (''Tool '' @ quoted (tc_tool tc) @ '' failed after ''
                     @ string_of_nat (a_maxRetries ag) @ '' attempts: '' @ m)
                   (Some (tc_tool tc)) (Some (a_maxRetries ag))), s')
          \<and> length (executeCalls (trace s')) =
              length (executeCalls (trace s)) + (a_maxRetries ag + 1 - attempt)"
proof (induction ag tool tc regen attempt finalArgs lastError s rule: retryLoop.induct)
  case (1 ag tool toolCall regen attempt finalArgs lastError s)
  show ?case
  proof (cases "attempt \<le> a_maxRetries ag")
    case False
    with "1.prems" have "attempt = a_maxRetries ag + 1" by auto
    then show ?thesis
      by (subst retryLoop.simps) auto
  next
    case True
    obtain args s1 where R: "regenerateOnRetry ag tool toolCall regen attempt finalArgs lastError s = (args, s1)"
      by (cases "regenerateOnRetry ag tool toolCall regen attempt finalArgs lastError s")
    obtain r s2 where E: "runExecute tool args s1 = (r, s2)"
      by (cases "runExecute tool args s1")
    from runExecute_fails [OF "1.prems"(1) E] obtain message where M: "r = Inl message"
      by (cases r) auto
    let ?s3 = "if attempt < a_maxRetries ag then sleep (a_retryDelay ag) s2 else s2"
    have "\<exists>m s'. retryLoop ag tool toolCall regen (attempt + 1) args (Some message) ?s3 =
             (Inl (AgentError (''Tool '' @ quoted (tc_tool toolCall) @ '' failed after ''
                     @ string_of_nat (a_maxRetries ag) @ '' attempts: '' @ m)
                   (Some (tc_tool toolCall)) (Some (a_maxRetries ag))), s')
          \<and> length (executeCalls (trace s')) =
              length (executeCalls (trace ?s3)) + (a_maxRetries ag + 1 - (attempt + 1))"
      using "1.IH" [OF True R [symmetric] E [symmetric] M "1.prems"(1)] True
      by simp
    then obtain m s' where
      L: "retryLoop ag tool toolCall regen (attempt + 1) args (Some message) ?s3 =
             (Inl (AgentError (''Tool '' @ quoted (tc_tool toolCall) @ '' failed after ''
                     @ string_of_nat (a_maxRetries ag) @ '' attempts: '' @ m)
                   (Some (tc_tool toolCall)) (Some (a_maxRetries ag))), s')"
      and C: "length (executeCalls (trace s')) =
              length (executeCalls (trace ?s3)) + (a_maxRetries ag + 1 - (attempt + 1))"
      by blast
    have "executeCalls (trace ?s3) = executeCalls (trace s) @ [ExecuteCall (t_name tool) args]"
      using regenerateOnRetry_executeCalls [OF R] runExecute_trace [OF E]
      by (simp add: sleep_executeCalls) (simp add: executeCalls_def)
    with C True have "length (executeCalls (trace s')) =
              length (executeCalls (trace s)) + (a_maxRetries ag + 1 - attempt)"
      by simp
    moreover have "retryLoop ag tool toolCall regen attempt finalArgs lastError s =
        retryLoop ag tool toolCall regen (attempt + 1) args (Some message) ?s3"
      using True R E M by (subst retryLoop.simps) simp
    ultimately show ?thesis using L by simp
  qed
qed

lemma getTool_name: "getTool ag toolName = Inr tool \<Longrightarrow> t_name tool = toolName"
  by (auto simp: getTool_def split: option.splits dest: find_Some_iff [THEN iffD1])

lemma prepareToolCall_name:
  "prepareToolCall ag tc oc s = (Inr (tool, finalArgs, regen), s1) \<Longrightarrow> t_name tool = tc_tool tc"
  by (auto simp: prepareToolCall_def Let_def dest: getTool_name
           split: sum.splits if_splits prod.splits)

subsection \<open>A tool that always fails uses up every attempt\<close>

text \<open>
  Claim C6. Take a call that gets as far as the retry loop (the tool is registered and the
  effective arguments pass validation) for a tool whose \<open>execute\<close> fails on every
  invocation. Then \<open>callTool\<close> invokes \<open>execute\<close> exactly \<open>maxRetries\<close> times and throws
  an \<open>AgentError\<close> whose message names the tool and the number of attempts,
  \<open>maxRetries\<close>; the error also carries both as fields.
\<close>

theorem callTool_exhausts_retries:
  assumes "prepareToolCall ag tc oc s = (Inr (tool, finalArgs, regen), s1)"
      and "\<forall>a w. isl (fst (t_execute tool a w))"
  shows "\<exists>m s'. callTool ag tc oc s =
             (Inl (AgentError (''Tool '' @ quoted (t_name tool) @ '' failed after ''
                     @ string_of_nat (a_maxRetries ag) @ '' attempts: '' @ m)
                   (Some (t_name tool)) (Some (a_maxRetries ag))), s')
          \<and> length (executeCalls (trace s')) = length (executeCalls (trace s)) + a_maxRetries ag"
proof -
  have c: "callTool ag tc oc s = retryLoop ag tool tc regen 1 finalArgs None s1"
    using assms(1) by (simp add: callTool_def)
  have n: "t_name tool = tc_tool tc"
    using assms(1) by (rule prepareToolCall_name)
  have e: "executeCalls (trace s1) = executeCalls (trace s)"
    using assms(1) by (rule prepareToolCall_executeCalls)
  from retryLoop_exhausts [OF assms(2), of 1 ag tc regen finalArgs None s1]
  show ?thesis by (simp add: c n e)
qed

text \<open>An agent with one tool, \<open>add\<close>, that rejects every call; three attempts.\<close>

lift_definition addParameters :: simplifiedSchema
  is "[(''a'', STypeName ''number''), (''b'', STypeName ''number'')]"
  by (simp add: fullShape_def)

definition addSchema :: parametersSchema where
  "addSchema = SimplifiedSchema addParameters"

definition failingTool :: "unit tool" where
  "failingTool = \<lparr> t_name = ''add'', t_description = ''Adds two numbers'',
                   t_parametersSchema = addSchema,
                   t_execute = (\<lambda>args w. (Inl ''boom'', w)),
                   t_agentic = False, t_systemPrompt = None \<rparr>"

definition offlineGateway :: "unit llmService" where
  "offlineGateway = \<lparr> getStructuredParameters = (\<lambda>request w. (Inl ''offline'', w)),
                      getStructuredPlan = (\<lambda>request w. (Inl ''offline'', w)),
                      getStructuredNextStep = (\<lambda>request w. (Inl ''offline'', w)) \<rparr>"

definition failingAgent :: "unit agent" where
  "failingAgent = \<lparr> a_tools = [failingTool], a_maxRetries = 3, a_retryDelay = 1000,
                    a_llmService = offlineGateway \<rparr>"

definition addCall :: toolCall where
  "addCall = \<lparr> tc_tool = ''add'', tc_arguments = Some [(''a'', JNum 2), (''b'', JNum 2)],
               tc_context = None \<rparr>"

definition startSys :: "unit sys" where
  "startSys = \<lparr> world = (), trace = [] \<rparr>"

lemma addCall_valid:
  "validateAgainstSchema [(''a'', JNum 2), (''b'', JNum 2)] addSchema =
     \<lparr> isValid = True, vr_data = Some [(''a'', JNum 2), (''b'', JNum 2)], vr_errors = None \<rparr>"
  by code_simp

lemma prepare_addCall:
  "prepareToolCall failingAgent addCall False startSys =
     (Inr (failingTool, [(''a'', JNum 2), (''b'', JNum 2)], False), startSys)"
  by (simp add: prepareToolCall_def getTool_def failingAgent_def addCall_def failingTool_def
                addCall_valid)

lemma string_of_nat_3: "string_of_nat 3 = ''3''"
  by code_simp

theorem callTool_exhausts_retries_witness:
  "callTool failingAgent addCall False startSys =
     (Inl (AgentError (''Tool '' @ quoted ''add'' @ '' failed after 3 attempts: boom'')
             (Some ''add'') (Some 3)),
      \<lparr> world = (),
        trace = [ExecuteCall ''add'' [(''a'', JNum 2), (''b'', JNum 2)], Sleep 1000,
                 ExecuteCall ''add'' [(''a'', JNum 2), (''b'', JNum 2)], Sleep 1000,
                 ExecuteCall ''add'' [(''a'', JNum 2), (''b'', JNum 2)]] \<rparr>)
   \<and> length (executeCalls (trace (snd (callTool failingAgent addCall False startSys)))) = 3"
proof -
  have f: "\<forall>a w. isl (fst (t_execute failingTool a w))"
    by (simp add: failingTool_def)
  have run: "callTool failingAgent addCall False startSys =
     (Inl (AgentError (''Tool '' @ quoted ''add'' @ '' failed after 3 attempts: boom'')
             (Some ''add'') (Some 3)),
      \<lparr> world = (),
        trace = [ExecuteCall ''add'' [(''a'', JNum 2), (''b'', JNum 2)], Sleep 1000,
                 ExecuteCall ''add'' [(''a'', JNum 2), (''b'', JNum 2)], Sleep 1000,
                 ExecuteCall ''add'' [(''a'', JNum 2), (''b'', JNum 2)]] \<rparr>)"
    by code_simp
  from callTool_exhausts_retries [OF prepare_addCall f]
  have "length (executeCalls (trace (snd (callTool failingAgent addCall False startSys)))) = 3"
    by (auto simp: failingAgent_def startSys_def executeCalls_def)
  with run show ?thesis by (rule conjI)
qed

subsection \<open>A direct call with explicit arguments never asks the gateway\<close>

lemma regenerateOnRetry_off:
  "regenerateOnRetry ag tool tc False attempt finalArgs lastError s = (finalArgs, s)"
  by (simp add: regenerateOnRetry_def split: option.splits)

lemma retryLoop_gateway_free:
  "regen = False \<Longrightarrow> a_maxRetries ag' = a_maxRetries ag \<Longrightarrow> a_retryDelay ag' = a_retryDelay ag \<Longrightarrow>
     retryLoop ag tool tc regen attempt finalArgs lastError s
       = retryLoop ag' tool tc regen attempt finalArgs lastError s
     \<and> gatewayCalls (trace (snd (retryLoop ag tool tc regen attempt finalArgs lastError s)))
         = gatewayCalls (trace s)"
proof (induction ag tool tc regen attempt finalArgs lastError s rule: retryLoop.induct)
  case (1 ag tool toolCall regen attempt finalArgs lastError s)
  show ?case
  proof (cases "attempt \<le> a_maxRetries ag")
    case False
    with "1.prems" show ?thesis
      by (simp add: retryLoop.simps [of ag] retryLoop.simps [of ag'])
  next
    case True
    obtain r s2 where E: "runExecute tool finalArgs s = (r, s2)"
      by (cases "runExecute tool finalArgs s")
    have G: "gatewayCalls (trace s2) = gatewayCalls (trace s)"
      using E by (auto simp: runExecute_def gatewayCalls_def split: prod.splits)
    show ?thesis
    proof (cases r)
      case (Inr result)
      with True E G "1.prems" show ?thesis
        by (simp add: retryLoop.simps [of ag] retryLoop.simps [of ag'] regenerateOnRetry_off)
    next
      case (Inl message)
      let ?s3 = "if attempt < a_maxRetries ag then sleep (a_retryDelay ag) s2 else s2"
      have R: "regenerateOnRetry ag tool toolCall regen attempt finalArgs lastError s = (finalArgs, s)"
        using "1.prems"(1) by (simp add: regenerateOnRetry_off)
      have G3: "gatewayCalls (trace ?s3) = gatewayCalls (trace s)"
        using G by (simp add: sleep_def gatewayCalls_def)
      have IH: "retryLoop ag tool toolCall regen (attempt + 1) finalArgs (Some message) ?s3
              = retryLoop ag' tool toolCall regen (attempt + 1) finalArgs (Some message) ?s3
            \<and> gatewayCalls (trace (snd (retryLoop ag tool toolCall regen (attempt + 1) finalArgs
                  (Some message) ?s3))) = gatewayCalls (trace ?s3)"
        by (rule "1.IH" [OF True R [symmetric] E [symmetric] Inl "1.prems"])
      have U: "retryLoop ag tool toolCall regen attempt finalArgs lastError s
                 = retryLoop ag tool toolCall regen (attempt + 1) finalArgs (Some message) ?s3"
        using True E Inl R by (subst retryLoop.simps) simp
      have U': "retryLoop ag' tool toolCall regen attempt finalArgs lastError s
                 = retryLoop ag' tool toolCall regen (attempt + 1) finalArgs (Some message) ?s3"
        using True E Inl "1.prems" by (subst retryLoop.simps) (simp add: regenerateOnRetry_off)
      show ?thesis
        unfolding U U' using IH G3 by metis
    qed
  qed
qed

text \<open>
  Claim C8. For a registered tool that is not agentic and a call with non-empty explicit
  arguments and \<open>forceExtraction = false\<close>, \<open>callTool\<close> never invokes the gateway: its
  outcome (result or error, final world and trace) is the same under any two gateways,
  and the trace gains no gateway call.
\<close>

theorem explicit_call_ignores_gateway:
  assumes "getTool ag (tc_tool tc) = Inr tool"
      and "\<not> t_agentic tool"
      and "tc_arguments tc = Some args"
      and "args \<noteq> []"
  shows "callTool (ag\<lparr> a_llmService := gateway1 \<rparr>) tc False s
           = callTool (ag\<lparr> a_llmService := gateway2 \<rparr>) tc False s
         \<and> gatewayCalls (trace (snd (callTool ag tc False s))) = gatewayCalls (trace s)"
proof -
  have p: "prepareToolCall (ag\<lparr> a_llmService := g \<rparr>) tc False s =
        (let v = validateAgainstSchema args (t_parametersSchema tool)
         in if \<not> isValid v then
              (Inl (AgentError (''Tool call validation failed for '' @ quoted (tc_tool tc)
                      @ '': '' @ validationErrorText v) (Some (tc_tool tc)) None), s)
            else (Inr (tool, (case vr_data v of None \<Rightarrow> args | Some d \<Rightarrow> d), False), s))" for g
    using assms by (simp add: prepareToolCall_def getTool_def Let_def)
  have q: "ag\<lparr> a_llmService := a_llmService ag \<rparr> = ag" by simp
  let ?v = "validateAgainstSchema args (t_parametersSchema tool)"
  let ?d = "case vr_data ?v of None \<Rightarrow> args | Some d \<Rightarrow> d"
  show ?thesis
  proof (cases "isValid ?v")
    case False
    then show ?thesis
      using p [of gateway1] p [of gateway2] p [of "a_llmService ag"]
      by (simp add: callTool_def Let_def gatewayCalls_def q)
  next
    case True
    have "retryLoop (ag\<lparr> a_llmService := gateway1 \<rparr>) tool tc False 1 ?d None s
            = retryLoop (ag\<lparr> a_llmService := gateway2 \<rparr>) tool tc False 1 ?d None s"
      using retryLoop_gateway_free [of False "ag\<lparr> a_llmService := gateway2 \<rparr>" "ag\<lparr> a_llmService := gateway1 \<rparr>"]
      by simp
    moreover have "gatewayCalls (trace (snd (retryLoop ag tool tc False 1 ?d None s)))
                     = gatewayCalls (trace s)"
      using retryLoop_gateway_free [of False ag ag] by simp
    ultimately show ?thesis
      using True p [of gateway1] p [of gateway2] p [of "a_llmService ag"]
      by (simp add: callTool_def Let_def q)
  qed
qed

text \<open>A gateway that answers every extraction request with the same record.\<close>

definition constantGateway :: "unit llmService" where
  "constantGateway =
     \<lparr> getStructuredParameters = (\<lambda>request w. (Inr \<lparr> sr_isValid = True,
            sr_structuredData = Some [(''a'', JNum 1), (''b'', JNum 1)],
            sr_validationErrors = None \<rparr>, w)),
       getStructuredPlan = (\<lambda>request w. (Inl ''offline'', w)),
       getStructuredNextStep = (\<lambda>request w. (Inl ''offline'', w)) \<rparr>"

theorem explicit_call_ignores_gateway_witness:
  "callTool (failingAgent\<lparr> a_llmService := offlineGateway \<rparr>) addCall False startSys
     = callTool (failingAgent\<lparr> a_llmService := constantGateway \<rparr>) addCall False startSys
   \<and> gatewayCalls (trace (snd (callTool failingAgent addCall False startSys))) = []"
proof -
  have t: "getTool failingAgent (tc_tool addCall) = Inr failingTool"
    by (simp add: getTool_def failingAgent_def addCall_def failingTool_def)
  have n: "\<not> t_agentic failingTool"
    by (simp add: failingTool_def)
  have a: "tc_arguments addCall = Some [(''a'', JNum 2), (''b'', JNum 2)]"
    by (simp add: addCall_def)
  from explicit_call_ignores_gateway [OF t n a, where s = startSys
         and ?gateway1.0 = offlineGateway and ?gateway2.0 = constantGateway]
  show ?thesis by (simp add: startSys_def gatewayCalls_def)
qed

subsection \<open>A failed regeneration does not abort the retry\<close>

text \<open>
  Claim C9. On a retry (attempt greater than one) of a call whose arguments came from
  extraction, when the regeneration fails (the gateway throws, answers with invalid data,
  or the regenerated data fail validation) the loop goes on: \<open>execute\<close> is invoked on
  that same attempt with the arguments validated before, and the attempt then ends as any
  other (its result is returned, or its error is recorded and the next attempt starts).
\<close>

theorem failed_regeneration_keeps_arguments:
  assumes "1 < attempt" and "attempt \<le> a_maxRetries ag"
    and "regenerateStructuredDataWithError ag tool
           (case tc_context tc of None \<Rightarrow> [] | Some c \<Rightarrow> c) message s = (r, s1)"
    and "case r of Inl e \<Rightarrow> True
         | Inr regenerated \<Rightarrow> \<not> isValid (validateAgainstSchema regenerated (t_parametersSchema tool))"
  shows "\<exists>res s2. runExecute tool finalArgs s1 = (res, s2)
          \<and> trace s2 = trace s1 @ [ExecuteCall (t_name tool) finalArgs]
          \<and> retryLoop ag tool tc True attempt finalArgs (Some message) s =
              (case res of
                 Inr result \<Rightarrow> (Inr result, s2)
               | Inl m \<Rightarrow> retryLoop ag tool tc True (attempt + 1) finalArgs (Some m)
                           (if attempt < a_maxRetries ag then sleep (a_retryDelay ag) s2 else s2))"
proof -
  obtain res s2 where E: "runExecute tool finalArgs s1 = (res, s2)"
    by (cases "runExecute tool finalArgs s1")
  have R: "regenerateOnRetry ag tool tc True attempt finalArgs (Some message) s = (finalArgs, s1)"
    using assms by (auto simp: regenerateOnRetry_def Let_def split: sum.splits)
  have "retryLoop ag tool tc True attempt finalArgs (Some message) s =
              (case res of
                 Inr result \<Rightarrow> (Inr result, s2)
               | Inl m \<Rightarrow> retryLoop ag tool tc True (attempt + 1) finalArgs (Some m)
                           (if attempt < a_maxRetries ag then sleep (a_retryDelay ag) s2 else s2))"
    using assms(2) R E by (subst retryLoop.simps) (simp split: sum.splits)
  with E runExecute_trace [OF E] show ?thesis by blast
qed

text \<open>An agentic tool that rejects every call, behind a gateway that is out of reach.\<close>

lift_definition cityParameter :: simplifiedSchema is "[(''city'', STypeName ''string'')]"
  by (simp add: fullShape_def)

definition weatherTool :: "unit tool" where
  "weatherTool = \<lparr> t_name = ''weather'', t_description = ''Looks up the weather'',
                   t_parametersSchema = SimplifiedSchema cityParameter,
                   t_execute = (\<lambda>args w. (Inl ''service down'', w)),
                   t_agentic = True, t_systemPrompt = None \<rparr>"

definition weatherAgent :: "unit agent" where
  "weatherAgent = \<lparr> a_tools = [weatherTool], a_maxRetries = 3, a_retryDelay = 0,
                    a_llmService = offlineGateway \<rparr>"

definition weatherCall :: toolCall where
  "weatherCall = \<lparr> tc_tool = ''weather'', tc_arguments = None,
                   tc_context = Some ''Weather in Oslo'' \<rparr>"

theorem failed_regeneration_keeps_arguments_witness:
  "(\<exists>res s1 s2.
      runExecute weatherTool [(''city'', JStr ''Oslo'')] s1 = (res, s2)
    \<and> trace s2 = [GatewayCall (RegenerateParameters ''weather''
                     (SimplifiedSchema cityParameter)
                     ''Weather in Oslo'' ''service down''),
                  ExecuteCall ''weather'' [(''city'', JStr ''Oslo'')]]
    \<and> retryLoop weatherAgent weatherTool weatherCall True 2 [(''city'', JStr ''Oslo'')]
          (Some ''service down'') startSys =
        (case res of
           Inr result \<Rightarrow> (Inr result, s2)
         | Inl m \<Rightarrow> retryLoop weatherAgent weatherTool weatherCall True 3 [(''city'', JStr ''Oslo'')]
                     (Some m) (sleep 0 s2)))
   \<and> retryLoop weatherAgent weatherTool weatherCall True 2 [(''city'', JStr ''Oslo'')]
        (Some ''service down'') startSys =
       (Inl (AgentError (''Tool '' @ quoted ''weather'' @ '' failed after 3 attempts: service down'')
               (Some ''weather'') (Some 3)),
        \<lparr> world = (),
          trace = [GatewayCall (RegenerateParameters ''weather'' (SimplifiedSchema cityParameter)
                                 ''Weather in Oslo'' ''service down''),
                   ExecuteCall ''weather'' [(''city'', JStr ''Oslo'')], Sleep 0,
                   GatewayCall (RegenerateParameters ''weather'' (SimplifiedSchema cityParameter)
                                 ''Weather in Oslo'' ''service down''),
                   ExecuteCall ''weather'' [(''city'', JStr ''Oslo'')]] \<rparr>)"
proof -
  let ?s1 = "\<lparr> world = (), trace = [GatewayCall (RegenerateParameters ''weather''
                     (SimplifiedSchema cityParameter)
                     ''Weather in Oslo'' ''service down'')] \<rparr>"
  have g: "regenerateStructuredDataWithError weatherAgent weatherTool
             (case tc_context weatherCall of None \<Rightarrow> [] | Some c \<Rightarrow> c) ''service down'' startSys
           = (Inl (AgentError (''LLM service error while regenerating data for tool ''
                     @ quoted ''weather'' @ '': offline'') (Some ''weather'') None), ?s1)"
    by (simp add: regenerateStructuredDataWithError_def askGateway_def weatherAgent_def
                  weatherTool_def weatherCall_def offlineGateway_def startSys_def)
  have a: "(1::nat) < 2" and b: "2 \<le> a_maxRetries weatherAgent"
    by (simp_all add: weatherAgent_def)
  have run: "retryLoop weatherAgent weatherTool weatherCall True 2 [(''city'', JStr ''Oslo'')]
        (Some ''service down'') startSys =
       (Inl (AgentError (''Tool '' @ quoted ''weather'' @ '' failed after 3 attempts: service down'')
               (Some ''weather'') (Some 3)),
        \<lparr> world = (),
          trace = [GatewayCall (RegenerateParameters ''weather'' (SimplifiedSchema cityParameter)
                                 ''Weather in Oslo'' ''service down''),
                   ExecuteCall ''weather'' [(''city'', JStr ''Oslo'')], Sleep 0,
                   GatewayCall (RegenerateParameters ''weather'' (SimplifiedSchema cityParameter)
                                 ''Weather in Oslo'' ''service down''),
                   ExecuteCall ''weather'' [(''city'', JStr ''Oslo'')]] \<rparr>)"
    by code_simp
  have n: "t_name weatherTool = ''weather''" and k: "2 < a_maxRetries weatherAgent"
    and z: "a_retryDelay weatherAgent = 0" and three: "(2::nat) + 1 = 3"
    by (simp_all add: weatherTool_def weatherAgent_def)
  have "\<exists>res s2.
      runExecute weatherTool [(''city'', JStr ''Oslo'')] ?s1 = (res, s2)
    \<and> trace s2 = trace ?s1 @ [ExecuteCall (t_name weatherTool) [(''city'', JStr ''Oslo'')]]
    \<and> retryLoop weatherAgent weatherTool weatherCall True 2 [(''city'', JStr ''Oslo'')]
          (Some ''service down'') startSys =
        (case res of
           Inr result \<Rightarrow> (Inr result, s2)
         | Inl m \<Rightarrow> retryLoop weatherAgent weatherTool weatherCall True (2 + 1)
                     [(''city'', JStr ''Oslo'')] (Some m)
                     (if 2 < a_maxRetries weatherAgent
                      then sleep (a_retryDelay weatherAgent) s2 else s2))"
    by (rule failed_regeneration_keeps_arguments [OF a b g]) simp
  then obtain res s2 where
    e: "runExecute weatherTool [(''city'', JStr ''Oslo'')] ?s1 = (res, s2)"
    and t: "trace s2 = trace ?s1 @ [ExecuteCall (t_name weatherTool) [(''city'', JStr ''Oslo'')]]"
    and l: "retryLoop weatherAgent weatherTool weatherCall True 2 [(''city'', JStr ''Oslo'')]
          (Some ''service down'') startSys =
        (case res of
           Inr result \<Rightarrow> (Inr result, s2)
         | Inl m \<Rightarrow> retryLoop weatherAgent weatherTool weatherCall True (2 + 1)
                     [(''city'', JStr ''Oslo'')] (Some m)
                     (if 2 < a_maxRetries weatherAgent
                      then sleep (a_retryDelay weatherAgent) s2 else s2))"
    by blast
  from t have t': "trace s2 = [GatewayCall (RegenerateParameters ''weather''
                     (SimplifiedSchema cityParameter)
                     ''Weather in Oslo'' ''service down''),
                  ExecuteCall ''weather'' [(''city'', JStr ''Oslo'')]]"
    by (simp add: n)
  from l k have l': "retryLoop weatherAgent weatherTool weatherCall True 2 [(''city'', JStr ''Oslo'')]
          (Some ''service down'') startSys =
        (case res of
           Inr result \<Rightarrow> (Inr result, s2)
         | Inl m \<Rightarrow> retryLoop weatherAgent weatherTool weatherCall True 3 [(''city'', JStr ''Oslo'')]
                     (Some m) (sleep 0 s2))"
    by (simp only: three z if_True)
  from e t' l' have "\<exists>res s1 s2.
      runExecute weatherTool [(''city'', JStr ''Oslo'')] s1 = (res, s2)
    \<and> trace s2 = [GatewayCall (RegenerateParameters ''weather''
                     (SimplifiedSchema cityParameter)
                     ''Weather in Oslo'' ''service down''),
                  ExecuteCall ''weather'' [(''city'', JStr ''Oslo'')]]
    \<and> retryLoop weatherAgent weatherTool weatherCall True 2 [(''city'', JStr ''Oslo'')]
          (Some ''service down'') startSys =
        (case res of
           Inr result \<Rightarrow> (Inr result, s2)
         | Inl m \<Rightarrow> retryLoop weatherAgent weatherTool weatherCall True 3 [(''city'', JStr ''Oslo'')]
                     (Some m) (sleep 0 s2))"
    by blast
  then show ?thesis using run by (rule conjI)
qed

subsection \<open>\<open>callTools\<close> never forces extraction\<close>

lemma callToolsLoop_results:
  "callToolsLoop ag results tcs s =
     (case callToolsLoop ag [] tcs s of
        (Inl e, s1) \<Rightarrow> (Inl e, s1)
      | (Inr rs, s1) \<Rightarrow> (Inr (results @ rs), s1))"
proof (induction tcs arbitrary: results s)
  case Nil
  then show ?case by simp
next
  case (Cons tc tcs)
  show ?case
  proof (cases "callTool ag tc False s")
    case (Pair r s1)
    show ?thesis
    proof (cases r)
      case (Inl e)
      with Pair show ?thesis by simp
    next
      case (Inr v)
      with Pair Cons.IH [of "results @ [v]" s1] Cons.IH [of "[v]" s1]
      show ?thesis by (simp split: prod.splits sum.splits)
    qed
  qed
qed

text \<open>
  Claim C10. Whatever \<open>orchestratorCall\<close> is passed to \<open>callTools\<close>, each call of the
  sequence is executed by \<open>callTool\<close> with the flag false, in order, the first failure
  ending the sequence: the parameter is never handed on.
\<close>

theorem callTools_never_forces_extraction:
  "callTools ag toolCalls orchestratorCall s = callTools ag toolCalls False s
   \<and> callTools ag [] orchestratorCall s = (Inr [], s)
   \<and> callTools ag (toolCall # rest) orchestratorCall s =
       (case callTool ag toolCall False s of
          (Inl e, s1) \<Rightarrow> (Inl e, s1)
        | (Inr result, s1) \<Rightarrow>
            (case callTools ag rest orchestratorCall s1 of
               (Inl e, s2) \<Rightarrow> (Inl e, s2)
             | (Inr results, s2) \<Rightarrow> (Inr (result # results), s2)))"
proof -
  have "callToolsLoop ag [] (toolCall # rest) s =
       (case callTool ag toolCall False s of
          (Inl e, s1) \<Rightarrow> (Inl e, s1)
        | (Inr result, s1) \<Rightarrow>
            (case callToolsLoop ag [] rest s1 of
               (Inl e, s2) \<Rightarrow> (Inl e, s2)
             | (Inr results, s2) \<Rightarrow> (Inr (result # results), s2)))"
  proof (cases "callTool ag toolCall False s")
    case (Pair r s1)
    show ?thesis
    proof (cases r)
      case (Inl e)
      with Pair show ?thesis by simp
    next
      case (Inr v)
      with Pair callToolsLoop_results [of ag "[v]" rest s1]
      show ?thesis by (simp split: prod.splits sum.splits)
    qed
  qed
  then show ?thesis by (simp add: callTools_def cong: prod.case_cong sum.case_cong)
qed

text \<open>The agent of the example, asked through \<open>callTools\<close> with the flag set: the call
  still runs as a direct call, and differs from a forced one.\<close>

lemma direct_addCall:
  "fst (callTool failingAgent addCall False startSys) =
     Inl (AgentError (''Tool '' @ quoted ''add'' @ '' failed after 3 attempts: boom'')
            (Some ''add'') (Some 3))"
  by code_simp

lemma forced_addCall:
  "fst (callTool failingAgent addCall True startSys) =
     Inl (AgentError (''Failed to extract parameters for agentic tool '' @ quoted ''add''
            @ '': LLM service error for tool '' @ quoted ''add'' @ '': offline'')
            (Some ''add'') None)"
  by code_simp

theorem callTools_never_forces_extraction_witness:
  "callTools failingAgent [addCall] True startSys = callTools failingAgent [addCall] False startSys
   \<and> fst (callTools failingAgent [addCall] True startSys) =
       Inl (AgentError (''Tool '' @ quoted ''add'' @ '' failed after 3 attempts: boom'')
              (Some ''add'') (Some 3))
   \<and> fst (callTools failingAgent [addCall] True startSys)
       \<noteq> map_sum id (\<lambda>v. [v]) (fst (callTool failingAgent addCall True startSys))"
proof -
  from callTools_never_forces_extraction [of failingAgent "[addCall]" True startSys addCall "[]"]
  have a: "callTools failingAgent [addCall] True startSys = callTools failingAgent [addCall] False startSys"
    and b: "callTools failingAgent [addCall] True startSys =
       (case callTool failingAgent addCall False startSys of
          (Inl e, s1) \<Rightarrow> (Inl e, s1)
        | (Inr result, s1) \<Rightarrow>
            (case callTools failingAgent [] True s1 of
               (Inl e, s2) \<Rightarrow> (Inl e, s2)
             | (Inr results, s2) \<Rightarrow> (Inr (result # results), s2)))"
    by blast+
  from b direct_addCall have c: "fst (callTools failingAgent [addCall] True startSys) =
       Inl (AgentError (''Tool '' @ quoted ''add'' @ '' failed after 3 attempts: boom'')
              (Some ''add'') (Some 3))"
    by (cases "callTool failingAgent addCall False startSys") auto
  from a c forced_addCall show ?thesis by simp
qed

subsection \<open>Forced extraction discards explicit arguments\<close>

text \<open>The explicit arguments of a call (none reads as the empty record), whether it has
  a non-empty context, and the context handed to extraction
  (\<open>context || "Generate Arguments for the given tool."\<close>).\<close>

definition explicitArguments :: "toolCall \<Rightarrow> jrecord" where
  "explicitArguments tc = (case tc_arguments tc of None \<Rightarrow> [] | Some a \<Rightarrow> a)"

definition hasContext :: "toolCall \<Rightarrow> bool" where
  "hasContext tc = (case tc_context tc of None \<Rightarrow> False | Some c \<Rightarrow> c \<noteq> [])"

definition extractionContext :: "toolCall \<Rightarrow> string" where
  "extractionContext tc =
     (if hasContext tc then (case tc_context tc of None \<Rightarrow> [] | Some c \<Rightarrow> c)
      else ''Generate Arguments for the given tool.'')"

text \<open>
  What the specification asks of \<open>callTool\<close> once the effective arguments are known
  (its steps 5 and 6): validate them against the tool's schema, fail with the validation
  error before any attempt, else run the retry loop on the validated record.
\<close>

definition executeWithArguments ::
  "'w agent \<Rightarrow> 'w tool \<Rightarrow> toolCall \<Rightarrow> jrecord \<Rightarrow> 'w sys \<Rightarrow> (agentError + jval) \<times> 'w sys" where
  "executeWithArguments ag tool tc effectiveArgs s =
    (let validationResult = validateAgainstSchema effectiveArgs (t_parametersSchema tool)
     in if \<not> isValid validationResult then
          (Inl (AgentError (''Tool call validation failed for '' @ quoted (tc_tool tc)
                  @ '': '' @ validationErrorText validationResult) (Some (tc_tool tc)) None), s)
        else retryLoop ag tool tc
               (t_agentic tool \<and> explicitArguments tc = [] \<and> hasContext tc) 1
               (case vr_data validationResult of None \<Rightarrow> effectiveArgs | Some d \<Rightarrow> d) None s)"

text \<open>
  Claim C2. For a registered tool and a call that has arguments or a context:
  with \<open>forceExtraction = true\<close>, \<open>callTool\<close> first asks the gateway to extract the
  parameters from the context and goes on with the extracted record as effective
  arguments, whatever explicit arguments the call carries (an extraction failure ends
  the call); with \<open>forceExtraction = false\<close> and non-empty explicit arguments, it goes on
  with those arguments, for an agentic tool as for any other.
\<close>

theorem forced_extraction_discards_arguments:
  assumes "getTool ag (tc_tool tc) = Inr tool"
  shows "(explicitArguments tc \<noteq> [] \<or> hasContext tc \<longrightarrow>
            callTool ag tc True s =
              (case generateStructuredDataForTool ag tool (extractionContext tc) s of
                 (Inl e, s1) \<Rightarrow>
                   (Inl (AgentError (''Failed to extract parameters for agentic tool ''
                           @ quoted (tc_tool tc) @ '': '' @ ae_message e) (Some (tc_tool tc)) None), s1)
               | (Inr extracted, s1) \<Rightarrow> executeWithArguments ag tool tc extracted s1)
          \<and> trace (snd (generateStructuredDataForTool ag tool (extractionContext tc) s)) =
              trace s @ [GatewayCall (ExtractParameters (t_name tool) (t_parametersSchema tool)
                                        (t_systemPrompt tool) (extractionContext tc))])
       \<and> (explicitArguments tc \<noteq> [] \<longrightarrow>
            callTool ag tc False s = executeWithArguments ag tool tc (explicitArguments tc) s)"
proof -
  have forced: "callTool ag tc True s =
              (case generateStructuredDataForTool ag tool (extractionContext tc) s of
                 (Inl e, s1) \<Rightarrow>
                   (Inl (AgentError (''Failed to extract parameters for agentic tool ''
                           @ quoted (tc_tool tc) @ '': '' @ ae_message e) (Some (tc_tool tc)) None), s1)
               | (Inr extracted, s1) \<Rightarrow> executeWithArguments ag tool tc extracted s1)"
    if "explicitArguments tc \<noteq> [] \<or> hasContext tc"
  proof (cases "generateStructuredDataForTool ag tool (extractionContext tc) s")
    case (Pair r s1)
    have ctx: "(case tc_context tc of
                  None \<Rightarrow> ''Generate Arguments for the given tool.''
                | Some c \<Rightarrow> if c = [] then ''Generate Arguments for the given tool.'' else c)
               = extractionContext tc"
      by (simp add: extractionContext_def hasContext_def split: option.splits)
    show ?thesis
      using that assms Pair
      by (cases r)
         (auto simp: callTool_def prepareToolCall_def executeWithArguments_def Let_def ctx
                     explicitArguments_def hasContext_def
               split: option.splits)
  qed
  have gateway: "trace (snd (generateStructuredDataForTool ag tool c s)) =
              trace s @ [GatewayCall (ExtractParameters (t_name tool) (t_parametersSchema tool)
                                        (t_systemPrompt tool) c)]" for c
    by (auto simp: generateStructuredDataForTool_def askGateway_def Let_def
             split: prod.splits sum.splits)
  have direct: "callTool ag tc False s = executeWithArguments ag tool tc (explicitArguments tc) s"
    if "explicitArguments tc \<noteq> []"
    using that assms
    by (auto simp: callTool_def prepareToolCall_def executeWithArguments_def Let_def
                   explicitArguments_def hasContext_def
             split: option.splits)
  from forced gateway direct show ?thesis by blast
qed

text \<open>An agentic tool that adds its two arguments, behind a gateway that always extracts
  \<open>a = 1, b = 1\<close>: a forced call with explicit \<open>a = 2, b = 2\<close> returns 2, a direct one 4.\<close>

definition sumTool :: "unit tool" where
  "sumTool = \<lparr> t_name = ''add'', t_description = ''Adds two numbers'',
               t_parametersSchema = addSchema,
               t_execute = (\<lambda>args w. (Inr (JNum (numValue (getField args ''a'')
                                                  + numValue (getField args ''b''))), w)),
               t_agentic = True, t_systemPrompt = None \<rparr>"

definition sumAgent :: "unit agent" where
  "sumAgent = \<lparr> a_tools = [sumTool], a_maxRetries = 3, a_retryDelay = 1000,
                a_llmService = constantGateway \<rparr>"

lemma forced_sum:
  "(case generateStructuredDataForTool sumAgent sumTool (extractionContext addCall) startSys of
      (Inl e, s1) \<Rightarrow>
        (Inl (AgentError (''Failed to extract parameters for agentic tool ''
                @ quoted (tc_tool addCall) @ '': '' @ ae_message e) (Some (tc_tool addCall)) None), s1)
    | (Inr extracted, s1) \<Rightarrow> executeWithArguments sumAgent sumTool addCall extracted s1)
   = (Inr (JNum 2),
      \<lparr> world = (),
        trace = [GatewayCall (ExtractParameters ''add'' addSchema None
                                ''Generate Arguments for the given tool.''),
                 ExecuteCall ''add'' [(''a'', JNum 1), (''b'', JNum 1)]] \<rparr>)"
  by code_simp

lemma direct_sum:
  "executeWithArguments sumAgent sumTool addCall (explicitArguments addCall) startSys
   = (Inr (JNum 4),
      \<lparr> world = (), trace = [ExecuteCall ''add'' [(''a'', JNum 2), (''b'', JNum 2)]] \<rparr>)"
  by code_simp

theorem forced_extraction_discards_arguments_witness:
  "callTool sumAgent addCall True startSys =
     (Inr (JNum 2),
      \<lparr> world = (),
        trace = [GatewayCall (ExtractParameters ''add'' addSchema None
                                ''Generate Arguments for the given tool.''),
                 ExecuteCall ''add'' [(''a'', JNum 1), (''b'', JNum 1)]] \<rparr>)
   \<and> callTool sumAgent addCall False startSys =
     (Inr (JNum 4),
      \<lparr> world = (), trace = [ExecuteCall ''add'' [(''a'', JNum 2), (''b'', JNum 2)]] \<rparr>)"
proof -
  have t: "getTool sumAgent (tc_tool addCall) = Inr sumTool"
    by (simp add: getTool_def sumAgent_def addCall_def sumTool_def)
  have a: "explicitArguments addCall \<noteq> []"
    by (simp add: explicitArguments_def addCall_def)
  from forced_extraction_discards_arguments [OF t, of startSys] a forced_sum direct_sum
  show ?thesis by simp
qed

subsection \<open>Steps run in dependency order\<close>

text \<open>A step of the state is pending when it is not completed, and executable when it is
  pending and every step number it depends on belongs to a completed step.\<close>

definition pendingAt :: "orchestratorState \<Rightarrow> nat \<Rightarrow> bool" where
  "pendingAt st i = (i < length (os_steps st) \<and> \<not> es_completed (os_steps st ! i))"

definition executableAt :: "orchestratorState \<Rightarrow> nat \<Rightarrow> bool" where
  "executableAt st i =
     (pendingAt st i \<and>
      list_all (\<lambda>d. case findStep (os_steps st) d of None \<Rightarrow> False | Some dep \<Rightarrow> es_completed dep)
        (dependenciesOf (os_steps st ! i)))"

lemma unsatisfied_empty_iff:
  "unsatisfiedDeps steps step = [] \<longleftrightarrow> list_all (dependencySatisfied steps) (dependenciesOf step)"
  by (simp add: unsatisfiedDeps_def filter_empty_conv list_all_iff)

lemma executableAt_iff:
  "executableAt st i \<longleftrightarrow> pendingAt st i \<and> unsatisfiedDeps (os_steps st) (os_steps st ! i) = []"
  by (simp add: executableAt_def unsatisfied_empty_iff dependencySatisfied_def [abs_def])

lemma foldl_least:
  fixes f :: "nat \<Rightarrow> int"
  shows "foldl (\<lambda>m i. if f i < f m then i else m) a xs \<in> set (a # xs)
       \<and> (\<forall>x \<in> set (a # xs). f (foldl (\<lambda>m i. if f i < f m then i else m) a xs) \<le> f x)"
proof (induction xs arbitrary: a)
  case Nil
  then show ?case by simp
next
  case (Cons x xs)
  from Cons [of "if f x < f a then x else a"] show ?case
    by (auto split: if_splits)
qed

lemma filter_upt_first:
  assumes "filter P [0..<n] = p # ps" and "j < p"
  shows "\<not> P j"
proof -
  from assms(1) obtain us vs where u: "[0..<n] = us @ p # vs" and a: "\<forall>u \<in> set us. \<not> P u"
    by (auto simp: filter_eq_Cons_iff)
  have "length us < n" using arg_cong [OF u, of length] by simp
  then have "[0..<n] ! length us = length us" by simp
  with u have "length us = p" by simp
  with assms(2) have "j < length us" by simp
  moreover from this have "j < n" using \<open>length us < n\<close> by simp
  ultimately have "us ! j = j" using u
    by (metis add_0 nth_append nth_upt)
  with \<open>j < length us\<close> have "j \<in> set us" by (metis nth_mem)
  with a show ?thesis by simp
qed

lemma findNext_characterisation:
  assumes "findNextExecutableStep st = Some i"
  shows "pendingAt st i
       \<and> ((\<exists>j. executableAt st j) \<longrightarrow>
            executableAt st i
            \<and> (\<forall>j. executableAt st j \<longrightarrow>
                  es_stepNumber (os_steps st ! i) \<le> es_stepNumber (os_steps st ! j)))
       \<and> (\<not> (\<exists>j. executableAt st j) \<longrightarrow> (\<forall>j < i. es_completed (os_steps st ! j)))"
proof -
  define steps where "steps = os_steps st"
  define pending where
    "pending = filter (\<lambda>i. \<not> es_completed (steps ! i)) [0..<length steps]"
  define exec where
    "exec = filter (\<lambda>i. list_all (dependencySatisfied steps) (dependenciesOf (steps ! i))) pending"
  define f where "f = (\<lambda>i. es_stepNumber (steps ! i))"
  have unfolded: "findNextExecutableStep st =
      (case pending of
         [] \<Rightarrow> None
       | p # _ \<Rightarrow>
           (case exec of
              [] \<Rightarrow> Some p
            | e # es \<Rightarrow> Some (foldl (\<lambda>m i. if f i < f m then i else m) e es)))"
    unfolding findNextExecutableStep_def Let_def steps_def pending_def exec_def f_def
    by (rule refl)
  have P: "j \<in> set pending \<longleftrightarrow> pendingAt st j" for j
    by (auto simp: pending_def steps_def pendingAt_def)
  have E: "j \<in> set exec \<longleftrightarrow> executableAt st j" for j
    unfolding exec_def executableAt_iff unsatisfied_empty_iff
    using P [of j] by (simp add: steps_def)
  from findNext_pending [OF assms] have pi: "pendingAt st i"
    by (simp add: pendingAt_def)
  show ?thesis
  proof (cases pending)
    case Nil
    with assms unfolded show ?thesis by simp
  next
    case (Cons p ps)
    note C = this
    show ?thesis
    proof (cases exec)
      case Nil
      have none: "\<not> (\<exists>j. executableAt st j)"
      proof
        assume "\<exists>j. executableAt st j"
        then obtain j where "j \<in> set exec" using E by blast
        with Nil show False by simp
      qed
      from Nil C assms unfolded have ip: "i = p" by simp
      have "\<forall>j < i. es_completed (os_steps st ! j)"
      proof (intro allI impI)
        fix j assume "j < i"
        with ip have "j < p" by simp
        from filter_upt_first [OF C [unfolded pending_def] this]
        show "es_completed (os_steps st ! j)" by (simp add: steps_def)
      qed
      with pi none show ?thesis by simp
    next
      case (Cons e es)
      from Cons C assms unfolded
      have i: "i = foldl (\<lambda>m i. if f i < f m then i else m) e es" by simp
      from foldl_least [of f e es]
      have m: "i \<in> set (e # es)" and l: "\<forall>x \<in> set (e # es). f i \<le> f x"
        unfolding i by blast+
      from m Cons E have ei: "executableAt st i" by simp
      have "\<forall>j. executableAt st j \<longrightarrow>
              es_stepNumber (os_steps st ! i) \<le> es_stepNumber (os_steps st ! j)"
      proof (intro allI impI)
        fix j assume "executableAt st j"
        with E Cons have "j \<in> set (e # es)" by simp
        with l have "f i \<le> f j" by blast
        then show "es_stepNumber (os_steps st ! i) \<le> es_stepNumber (os_steps st ! j)"
          by (simp add: f_def steps_def)
      qed
      with pi ei show ?thesis by blast
    qed
  qed
qed

lemma findNext_some:
  assumes "pendingAt st j"
  shows "findNextExecutableStep st \<noteq> None"
proof -
  have "j \<in> set (filter (\<lambda>i. \<not> es_completed (os_steps st ! i)) [0..<length (os_steps st)])"
    using assms by (simp add: pendingAt_def)
  then have "filter (\<lambda>i. \<not> es_completed (os_steps st ! i)) [0..<length (os_steps st)] \<noteq> []"
    by (metis empty_iff list.set(1))
  then show ?thesis
    by (simp add: findNextExecutableStep_def Let_def split: list.splits)
qed

lemma executeStep_blocked:
  assumes "unsatisfiedDeps (os_steps st) (os_steps st ! i) \<noteq> []"
  shows "executeStep orch i st s =
           (Inl (OrchestratorError
                  (''Step '' @ string_of_int (es_stepNumber (os_steps st ! i)) @ '' depends on steps ''
                   @ join '', '' (map string_of_int (unsatisfiedDeps (os_steps st) (os_steps st ! i)))
                   @ '' which are not yet completed'')
                  (Some (es_stepNumber (os_steps st ! i)))), st, s)"
  using assms by (simp add: executeStep_def Let_def)

text \<open>
  Claim C4. A step with an unmet dependency (a step number it depends on is absent from
  \<open>steps\<close>, or belongs to a step that is not completed) is never executed:
  \<open>executeStep\<close> throws an error naming the unmet step numbers and leaves the state and
  the trace as they are, so no tool and no gateway is invoked. \<open>findNextExecutableStep\<close>
  finds a step whenever one is pending; the step it returns is pending; when some pending
  step is executable, it is an executable one of lowest step number; when none is, it is
  the first pending step, whose execution fails in the way just described.
\<close>

theorem dependency_gating:
  "(unsatisfiedDeps (os_steps st) (os_steps st ! k) \<noteq> [] \<longrightarrow>
      executeStep orch k st s =
        (Inl (OrchestratorError
               (''Step '' @ string_of_int (es_stepNumber (os_steps st ! k)) @ '' depends on steps ''
                @ join '', '' (map string_of_int (unsatisfiedDeps (os_steps st) (os_steps st ! k)))
                @ '' which are not yet completed'')
               (Some (es_stepNumber (os_steps st ! k)))), st, s))
   \<and> (trace (snd (snd (executeStep orch k st s))) \<noteq> trace s \<longrightarrow>
        (\<forall>d \<in> set (dependenciesOf (os_steps st ! k)).
           \<exists>dep. findStep (os_steps st) d = Some dep \<and> es_completed dep))
   \<and> ((\<exists>j. pendingAt st j) \<longrightarrow> findNextExecutableStep st \<noteq> None)
   \<and> (findNextExecutableStep st = Some i \<longrightarrow>
        pendingAt st i
        \<and> ((\<exists>j. executableAt st j) \<longrightarrow>
              executableAt st i
              \<and> (\<forall>j. executableAt st j \<longrightarrow>
                    es_stepNumber (os_steps st ! i) \<le> es_stepNumber (os_steps st ! j)))
        \<and> (\<not> (\<exists>j. executableAt st j) \<longrightarrow>
              (\<forall>j < i. es_completed (os_steps st ! j))
              \<and> unsatisfiedDeps (os_steps st) (os_steps st ! i) \<noteq> []))"
proof -
  have a: "unsatisfiedDeps (os_steps st) (os_steps st ! k) \<noteq> [] \<longrightarrow>
      executeStep orch k st s =
        (Inl (OrchestratorError
               (''Step '' @ string_of_int (es_stepNumber (os_steps st ! k)) @ '' depends on steps ''
                @ join '', '' (map string_of_int (unsatisfiedDeps (os_steps st) (os_steps st ! k)))
                @ '' which are not yet completed'')
               (Some (es_stepNumber (os_steps st ! k)))), st, s)"
    by (simp add: executeStep_blocked)
  have b: "trace (snd (snd (executeStep orch k st s))) \<noteq> trace s \<longrightarrow>
        (\<forall>d \<in> set (dependenciesOf (os_steps st ! k)).
           \<exists>dep. findStep (os_steps st) d = Some dep \<and> es_completed dep)"
  proof
    assume t: "trace (snd (snd (executeStep orch k st s))) \<noteq> trace s"
    have "unsatisfiedDeps (os_steps st) (os_steps st ! k) = []"
    proof (rule ccontr)
      assume "unsatisfiedDeps (os_steps st) (os_steps st ! k) \<noteq> []"
      from executeStep_blocked [OF this, of orch s] t show False by simp
    qed
    then show "\<forall>d \<in> set (dependenciesOf (os_steps st ! k)).
           \<exists>dep. findStep (os_steps st) d = Some dep \<and> es_completed dep"
      by (auto simp: unsatisfied_empty_iff list_all_iff dependencySatisfied_def split: option.splits)
  qed
  have c: "(\<exists>j. pendingAt st j) \<longrightarrow> findNextExecutableStep st \<noteq> None"
    using findNext_some by blast
  have d: "findNextExecutableStep st = Some i \<longrightarrow>
        pendingAt st i
        \<and> ((\<exists>j. executableAt st j) \<longrightarrow>
              executableAt st i
              \<and> (\<forall>j. executableAt st j \<longrightarrow>
                    es_stepNumber (os_steps st ! i) \<le> es_stepNumber (os_steps st ! j)))
        \<and> (\<not> (\<exists>j. executableAt st j) \<longrightarrow>
              (\<forall>j < i. es_completed (os_steps st ! j))
              \<and> unsatisfiedDeps (os_steps st) (os_steps st ! i) \<noteq> [])"
  proof
    assume f: "findNextExecutableStep st = Some i"
    from findNext_characterisation [OF f]
    have p: "pendingAt st i"
      and e: "(\<exists>j. executableAt st j) \<longrightarrow>
              executableAt st i
              \<and> (\<forall>j. executableAt st j \<longrightarrow>
                    es_stepNumber (os_steps st ! i) \<le> es_stepNumber (os_steps st ! j))"
      and n: "\<not> (\<exists>j. executableAt st j) \<longrightarrow> (\<forall>j < i. es_completed (os_steps st ! j))"
      by simp_all
    have u: "\<not> (\<exists>j. executableAt st j) \<longrightarrow> unsatisfiedDeps (os_steps st) (os_steps st ! i) \<noteq> []"
      using p by (auto simp: executableAt_iff)
    from p e n u show "pendingAt st i
        \<and> ((\<exists>j. executableAt st j) \<longrightarrow>
              executableAt st i
              \<and> (\<forall>j. executableAt st j \<longrightarrow>
                    es_stepNumber (os_steps st ! i) \<le> es_stepNumber (os_steps st ! j)))
        \<and> (\<not> (\<exists>j. executableAt st j) \<longrightarrow>
              (\<forall>j < i. es_completed (os_steps st ! j))
              \<and> unsatisfiedDeps (os_steps st) (os_steps st ! i) \<noteq> [])"
      by simp
  qed
  show ?thesis
    by (rule conjI [OF a conjI [OF b conjI [OF c d]]])
qed

text \<open>
  A state with a completed step 1, a pending step 3 that depends on it, and a pending
  step 2 that depends on a step 7 that does not exist: step 3 is chosen although step 2
  has the lower number, and executing step 2 fails without touching anything.
\<close>

definition exampleOrchestrator :: "unit orchestrator" where
  "exampleOrchestrator = \<lparr> o_agent = sumAgent, o_maxSteps = 10, o_stringify = (\<lambda>v. ''{}'') \<rparr>"

definition planStepOf :: "int \<Rightarrow> bool \<Rightarrow> int list \<Rightarrow> executionStep" where
  "planStepOf n done deps =
     \<lparr> es_stepNumber = n, es_description = ''Add the numbers'',
       es_toolCall = \<lparr> tc_tool = ''add'', tc_arguments = Some [(''a'', JNum 2), (''b'', JNum 2)],
                        tc_context = None \<rparr>,
       es_completed = done, es_result = (if done then Some (JNum 4) else None),
       es_error = None, es_dependsOn = Some deps \<rparr>"

definition exampleState :: orchestratorState where
  "exampleState = (createInitialState ''Add 2 and 2'')
     \<lparr> os_steps := [planStepOf 1 True [], planStepOf 3 False [1], planStepOf 2 False [7]],
       os_status := StExecuting \<rparr>"

theorem dependency_gating_witness:
  "executeStep exampleOrchestrator 2 exampleState startSys =
     (Inl (OrchestratorError ''Step 2 depends on steps 7 which are not yet completed'' (Some 2)),
      exampleState, startSys)
   \<and> findNextExecutableStep exampleState = Some 1
   \<and> executableAt exampleState 1
   \<and> es_stepNumber (os_steps exampleState ! 1) = 3"
proof -
  have u: "unsatisfiedDeps (os_steps exampleState) (os_steps exampleState ! 2) \<noteq> []"
    by code_simp
  have m: "''Step '' @ string_of_int (es_stepNumber (os_steps exampleState ! 2)) @ '' depends on steps ''
           @ join '', '' (map string_of_int (unsatisfiedDeps (os_steps exampleState) (os_steps exampleState ! 2)))
           @ '' which are not yet completed''
           = ''Step 2 depends on steps 7 which are not yet completed''"
    by code_simp
  have n: "es_stepNumber (os_steps exampleState ! 2) = 2" "es_stepNumber (os_steps exampleState ! 1) = 3"
    by code_simp+
  have f: "findNextExecutableStep exampleState = Some 1"
    by code_simp
  have e: "\<exists>j. executableAt exampleState j"
    by (rule exI [of _ 1]) code_simp
  from dependency_gating [of exampleState 2 exampleOrchestrator startSys 1] u m n f e
  show ?thesis by simp
qed

subsection \<open>Replanning keeps the completed steps\<close>

lemma foldl_max_Max: "foldl max (a::int) xs = Max (insert a (set xs))"
proof (induction xs arbitrary: a)
  case Nil
  then show ?case by simp
next
  case (Cons x xs)
  have "Max (insert (max a x) (set xs)) = Max (insert a (insert x (set xs)))"
    by (cases "set xs = {}") (simp_all add: max.assoc)
  with Cons [of "max a x"] show ?case by simp
qed

lemma filter_completed_update:
  "i < length xs \<Longrightarrow> \<not> es_completed (xs ! i) \<Longrightarrow>
     filter es_completed (xs[i := (xs ! i)\<lparr> es_error := e \<rparr>]) = filter es_completed xs"
proof (induction xs arbitrary: i)
  case Nil
  then show ?case by simp
next
  case (Cons x xs)
  then show ?case by (cases i) auto
qed

lemma stepNumbers_update:
  "map es_stepNumber (xs[i := (xs ! i)\<lparr> es_error := e \<rparr>]) = map es_stepNumber xs"
proof (induction xs arbitrary: i)
  case Nil
  then show ?case by simp
next
  case (Cons x xs)
  then show ?case by (cases i) auto
qed

lemma executeStep_failure_steps:
  assumes "executeStep orch i st s = (Inl e, st1, s1)"
  shows "os_steps st1 = os_steps st
       \<or> (\<exists>m. os_steps st1 = (os_steps st)[i := (os_steps st ! i)\<lparr> es_error := Some m \<rparr>])"
  using assms
  by (auto simp: executeStep_def Let_def split: if_splits prod.splits sum.splits)

lemma generatePlan_steps:
  "generatePlan orch q sp prev done st s = (r, st1, s1) \<Longrightarrow> os_steps st1 = os_steps st"
  by (auto simp: generatePlan_def Let_def split: prod.splits sum.splits option.splits if_splits)

lemma renumber_numbers:
  "map es_stepNumber (renumber m new) = map (\<lambda>k. m + int k + 1) [0..<length new]"
  by (auto simp: renumber_def intro!: nth_equalityI)

lemma mergeRegeneratedPlan_eq:
  "mergeRegeneratedPlan steps plan =
     filter es_completed steps
     @ renumber (Max (insert 0 (es_stepNumber ` set steps))) (convertToExecutionSteps plan)"
proof -
  define m where "m = Max (insert 0 (es_stepNumber ` set steps))"
  have le: "es_stepNumber c \<le> m" if "c \<in> set steps" for c
    using that by (simp add: m_def)
  have "\<not> list_ex (\<lambda>cs. es_stepNumber cs = es_stepNumber n) (filter es_completed steps)"
    if "n \<in> set (renumber m (convertToExecutionSteps plan))" for n
  proof -
    from that have "es_stepNumber n \<in> set (map es_stepNumber (renumber m (convertToExecutionSteps plan)))"
      by simp
    then have "m < es_stepNumber n"
      unfolding renumber_numbers by auto
    with le show ?thesis
      by (fastforce simp: list_ex_iff)
  qed
  then have "filter (\<lambda>newStep. \<not> list_ex (\<lambda>cs. es_stepNumber cs = es_stepNumber newStep)
                                    (filter es_completed steps))
               (renumber m (convertToExecutionSteps plan)) = renumber m (convertToExecutionSteps plan)"
    by (simp add: filter_id_conv)
  then show ?thesis
    by (simp add: mergeRegeneratedPlan_def Let_def foldl_max_Max m_def)
qed

text \<open>A step of the list other than the one at index \<open>i\<close> is still there when that one
  is replaced.\<close>

lemma member_update_other:
  assumes "c \<in> set xs" and "c \<noteq> xs ! i"
  shows "c \<in> set (xs[i := y])"
proof -
  from assms(1) obtain j where j: "j < length xs" "xs ! j = c"
    by (auto simp: in_set_conv_nth)
  with assms(2) have "j \<noteq> i" by auto
  with j have "(xs[i := y]) ! j = c" "j < length (xs[i := y])" by simp_all
  then show ?thesis by (metis nth_mem)
qed

lemma executeStep_keeps_completed:
  assumes "executeStep orch i st s = (r, st1, s1)"
    and "\<not> es_completed (os_steps st ! i)"
    and "c \<in> set (os_steps st)" and "es_completed c"
  shows "c \<in> set (os_steps st1)"
proof -
  from assms(2,4) have ne: "c \<noteq> os_steps st ! i" by auto
  show ?thesis
  proof (cases r)
    case (Inl e)
    from executeStep_failure_steps [OF assms(1) [unfolded Inl]] assms(3) ne
    show ?thesis by (auto intro: member_update_other)
  next
    case (Inr v)
    from executeStep_success_steps [OF assms(1) [unfolded Inr]] assms(3) ne
    show ?thesis by (auto intro: member_update_other)
  qed
qed

text \<open>A completed step stays in the list of steps through every pass of the loop, and
  is among the steps of the result when the run returns.\<close>

lemma executeIteration_keeps_completed:
  assumes "c \<in> set (os_steps st)" and "es_completed c"
  shows "case executeIteration orch userQuery systemPrompt count planResponse st s of
           Finished result s' \<Rightarrow> c \<in> set (or_steps result)
         | Continue count' plan' st' s' \<Rightarrow> c \<in> set (os_steps st')"
proof (cases "findNextExecutableStep st")
  case None
  with assms show ?thesis
    by (simp add: executeIteration_def Let_def resultOf_def executionFailed_def
             split: prod.splits sum.splits)
next
  case (Some i)
  let ?st = "st\<lparr> os_currentStepIndex := es_stepNumber (os_steps st ! i) - 1 \<rparr>"
  from findNext_pending [OF Some] have p: "\<not> es_completed (os_steps ?st ! i)" by simp
  obtain r st1 s1 where e: "executeStep orch i ?st s = (r, st1, s1)"
    by (cases "executeStep orch i ?st s") auto
  from executeStep_keeps_completed [OF e p] assms
  have c1: "c \<in> set (os_steps st1)" by simp
  show ?thesis
  proof (cases "o_maxSteps orch \<le> length (os_steps st)")
    case True
    with Some assms show ?thesis
      by (simp add: executeIteration_def resultOf_def)
  next
    case False
    note small = this
    show ?thesis
    proof (cases r)
      case (Inr result)
      with Some small e c1 show ?thesis
        by (simp add: executeIteration_def)
    next
      case (Inl stepError)
      note failed = this
      show ?thesis
      proof (cases "maxPlanRegenerations \<le> count")
        case True
        with Some small e failed c1 assms(2) show ?thesis
          by (simp add: executeIteration_def resultOf_def)
      next
        case False
        obtain g st2 s2 where g: "generatePlan orch userQuery systemPrompt (Some planResponse)
            (Some (filter es_completed (os_steps st1))) st1 s1 = (g, st2, s2)"
          by (cases "generatePlan orch userQuery systemPrompt (Some planResponse)
            (Some (filter es_completed (os_steps st1))) st1 s1") auto
        from generatePlan_steps [OF g] c1 have c2: "c \<in> set (os_steps st2)" by simp
        with assms(2) have "c \<in> set (mergeRegeneratedPlan (os_steps st2) newPlan)" for newPlan
          by (simp add: mergeRegeneratedPlan_def Let_def)
        with Some small e failed False g c2 assms(2) show ?thesis
          by (cases g) (simp_all add: executeIteration_def resultOf_def executionFailed_def)
      qed
    qed
  qed
qed

lemma executeLoop_keeps_completed:
  "c \<in> set (os_steps st) \<Longrightarrow> es_completed c \<Longrightarrow>
     c \<in> set (or_steps (fst (executeLoop orch userQuery systemPrompt count planResponse st s)))"
proof (induction orch userQuery systemPrompt count planResponse st s rule: executeLoop.induct)
  case (1 orch userQuery systemPrompt count planResponse st s)
  show ?case
  proof (cases "count \<le> maxPlanRegenerations")
    case False
    with 1(2,3) show ?thesis
      by (subst executeLoop.simps) (simp add: resultOf_def)
  next
    case True
    show ?thesis
    proof (cases "executeIteration orch userQuery systemPrompt count planResponse st s")
      case (Finished result s')
      with executeIteration_keeps_completed [OF 1(2,3), of orch userQuery systemPrompt count planResponse s]
        True
      show ?thesis
        by (subst executeLoop.simps) simp
    next
      case (Continue count' plan' st' s')
      with executeIteration_keeps_completed [OF 1(2,3), of orch userQuery systemPrompt count planResponse s]
      have "c \<in> set (os_steps st')" by simp
      from 1(1) [OF True Continue this 1(3)] True Continue
      show ?thesis
        by (subst executeLoop.simps) simp
    qed
  qed
qed

text \<open>The steps of a result are the completed steps of its state.\<close>

lemma executeIteration_result_steps:
  "executeIteration orch userQuery systemPrompt count planResponse st s = Finished result s'
     \<Longrightarrow> or_steps result = filter es_completed (os_steps (or_state result))"
  by (auto simp: executeIteration_def resultOf_def executionFailed_def Let_def
           split: option.splits prod.splits sum.splits if_splits)

lemma executeLoop_result_steps:
  "or_steps (fst (executeLoop orch userQuery systemPrompt count planResponse st s))
     = filter es_completed
         (os_steps (or_state (fst (executeLoop orch userQuery systemPrompt count planResponse st s))))"
proof (induction orch userQuery systemPrompt count planResponse st s rule: executeLoop.induct)
  case (1 orch userQuery systemPrompt count planResponse st s)
  show ?case
  proof (cases "count \<le> maxPlanRegenerations")
    case False
    then show ?thesis
      by (subst (1 2) executeLoop.simps) (simp add: resultOf_def)
  next
    case True
    show ?thesis
    proof (cases "executeIteration orch userQuery systemPrompt count planResponse st s")
      case (Finished result s')
      with executeIteration_result_steps [OF Finished] True show ?thesis
        by (subst (1 2) executeLoop.simps) simp
    next
      case (Continue count' plan' st' s')
      from 1 [OF True Continue] True Continue show ?thesis
        by (subst (1 2) executeLoop.simps) simp
    qed
  qed
qed

text \<open>
  Claim C5. When a step fails in \<open>execute\<close> and the plan is regenerated, the loop goes
  round again with the regeneration counted, the new plan, and a state whose list of
  steps is every step that was completed before the failure, as it was (still completed,
  same result), followed by the steps of the new plan, numbered \<open>m + 1, m + 2, ...\<close> where
  \<open>m\<close> is the highest step number there was (and at least 0); the steps that were still
  incomplete are gone. The run is from then on the run of the loop from that state, and
  the steps that were completed are still among the steps of its result and of its final
  state when it ends, whatever happens after the replanning.
\<close>

theorem replanning_keeps_completed_steps:
  assumes "findNextExecutableStep st = Some i"
    and "planRegenerationCount < maxPlanRegenerations"
    and "length (os_steps st) < o_maxSteps orch"
    and "executeStep orch i (st\<lparr> os_currentStepIndex := es_stepNumber (os_steps st ! i) - 1 \<rparr>) s
           = (Inl stepError, st1, s1)"
    and "generatePlan orch userQuery systemPrompt (Some planResponse)
           (Some (filter es_completed (os_steps st1))) st1 s1 = (Inr newPlan, st2, s2)"
  shows "executeIteration orch userQuery systemPrompt planRegenerationCount planResponse st s
           = Continue (planRegenerationCount + 1) newPlan
               (st2\<lparr> os_steps := filter es_completed (os_steps st)
                   @ map (\<lambda>(index, step). step\<lparr> es_stepNumber :=
                              Max (insert 0 (es_stepNumber ` set (os_steps st))) + int index + 1 \<rparr>)
                       (zip [0..<length (convertToExecutionSteps newPlan)]
                            (convertToExecutionSteps newPlan)) \<rparr>) s2
       \<and> executeLoop orch userQuery systemPrompt planRegenerationCount planResponse st s
           = executeLoop orch userQuery systemPrompt (planRegenerationCount + 1) newPlan
               (st2\<lparr> os_steps := filter es_completed (os_steps st)
                   @ map (\<lambda>(index, step). step\<lparr> es_stepNumber :=
                              Max (insert 0 (es_stepNumber ` set (os_steps st))) + int index + 1 \<rparr>)
                       (zip [0..<length (convertToExecutionSteps newPlan)]
                            (convertToExecutionSteps newPlan)) \<rparr>) s2
       \<and> (\<forall>step \<in> set (os_steps st).
             es_stepNumber step \<le> Max (insert 0 (es_stepNumber ` set (os_steps st))))
       \<and> (\<forall>step \<in> set (os_steps st). es_completed step \<longrightarrow>
             step \<in> set (or_steps (fst (executeLoop orch userQuery systemPrompt
                                            planRegenerationCount planResponse st s)))
             \<and> step \<in> set (os_steps (or_state (fst (executeLoop orch userQuery systemPrompt
                                            planRegenerationCount planResponse st s)))))"
proof -
  let ?st = "st\<lparr> os_currentStepIndex := es_stepNumber (os_steps st ! i) - 1 \<rparr>"
  let ?m = "Max (insert 0 (es_stepNumber ` set (os_steps st)))"
  from findNext_pending [OF assms(1)]
  have i: "i < length (os_steps st)" and p: "\<not> es_completed (os_steps st ! i)" by simp_all
  from executeStep_failure_steps [OF assms(4)]
  have c: "filter es_completed (os_steps st1) = filter es_completed (os_steps st)"
    and n: "map es_stepNumber (os_steps st1) = map es_stepNumber (os_steps st)"
    using i p by (auto simp: filter_completed_update stepNumbers_update)
  from generatePlan_steps [OF assms(5)] have s2: "os_steps st2 = os_steps st1" .
  have "es_stepNumber ` set (os_steps st1) = es_stepNumber ` set (os_steps st)"
    using arg_cong [OF n, of set] by simp
  with c s2 have merged: "mergeRegeneratedPlan (os_steps st2) newPlan
      = filter es_completed (os_steps st) @ renumber ?m (convertToExecutionSteps newPlan)"
    by (simp add: mergeRegeneratedPlan_eq)
  have pass: "executeIteration orch userQuery systemPrompt planRegenerationCount planResponse st s
           = Continue (planRegenerationCount + 1) newPlan
               (st2\<lparr> os_steps := filter es_completed (os_steps st)
                   @ renumber ?m (convertToExecutionSteps newPlan) \<rparr>) s2"
    using assms merged by (simp add: executeIteration_def)
  have high: "\<forall>step \<in> set (os_steps st). es_stepNumber step \<le> ?m" by simp
  have kept: "\<forall>step \<in> set (os_steps st). es_completed step \<longrightarrow>
             step \<in> set (or_steps (fst (executeLoop orch userQuery systemPrompt
                                            planRegenerationCount planResponse st s)))
             \<and> step \<in> set (os_steps (or_state (fst (executeLoop orch userQuery systemPrompt
                                            planRegenerationCount planResponse st s))))"
    using executeLoop_keeps_completed [of _ st orch userQuery systemPrompt planRegenerationCount
                                          planResponse s]
      executeLoop_result_steps [of orch userQuery systemPrompt planRegenerationCount planResponse st s]
    by auto
  from assms(2) pass
  have loop: "executeLoop orch userQuery systemPrompt planRegenerationCount planResponse st s
           = executeLoop orch userQuery systemPrompt (planRegenerationCount + 1) newPlan
               (st2\<lparr> os_steps := filter es_completed (os_steps st)
                   @ renumber ?m (convertToExecutionSteps newPlan) \<rparr>) s2"
    by (subst executeLoop.simps) simp
  from pass loop high kept show ?thesis
    unfolding renumber_def by blast
qed

text \<open>
  A gateway that first plans two steps, the second one waiting for a step 7 that does not
  exist, and answers a regeneration with a plan of one step. In a state with step 1
  completed and step 2 stuck, the pass that fails on step 2 leaves step 1 as it was and
  the new step with number 3; the whole run of \<open>execute\<close> ends with step 1 and step 3
  completed.
\<close>

definition addTwicePlan :: planningResponse where
  "addTwicePlan =
     \<lparr> pr_plan = ''Add, then add to the result'',
       pr_steps = Some [\<lparr> ps_stepNumber = 1, ps_description = ''Add the numbers'',
                          ps_tool = ''add'', ps_arguments = None, ps_dependsOn = None \<rparr>,
                        \<lparr> ps_stepNumber = 2, ps_description = ''Add to the result'',
                          ps_tool = ''add'', ps_arguments = None, ps_dependsOn = Some [7] \<rparr>],
       pr_isComplete = False \<rparr>"

definition addAgainPlan :: planningResponse where
  "addAgainPlan =
     \<lparr> pr_plan = ''Add the numbers again'',
       pr_steps = Some [\<lparr> ps_stepNumber = 1, ps_description = ''Add the numbers again'',
                          ps_tool = ''add'', ps_arguments = None, ps_dependsOn = None \<rparr>],
       pr_isComplete = False \<rparr>"

definition replanGateway :: "unit llmService" where
  "replanGateway =
     \<lparr> getStructuredParameters = (\<lambda>request w. (Inr \<lparr> sr_isValid = True,
            sr_structuredData = Some [(''a'', JNum 1), (''b'', JNum 1)],
            sr_validationErrors = None \<rparr>, w)),
       getStructuredPlan = (\<lambda>request w. (Inr \<lparr> sr_isValid = True,
            sr_structuredData = Some (case request of
                                        PlanRequest userQuery systemPrompt None completedSteps \<Rightarrow> addTwicePlan
                                      | _ \<Rightarrow> addAgainPlan),
            sr_validationErrors = None \<rparr>, w)),
       getStructuredNextStep = (\<lambda>request w. (Inr \<lparr> sr_isValid = True,
            sr_structuredData = Some \<lparr> ns_shouldContinue = False,
                                       ns_finalResponse = Some ''The sum is 2'' \<rparr>,
            sr_validationErrors = None \<rparr>, w)) \<rparr>"

definition replanOrchestrator :: "unit orchestrator" where
  "replanOrchestrator =
     \<lparr> o_agent = sumAgent\<lparr> a_llmService := replanGateway \<rparr>, o_maxSteps = 10,
       o_stringify = (\<lambda>v. ''{}'') \<rparr>"

definition firstPlan :: planningResponse where
  "firstPlan = \<lparr> pr_plan = ''Add the numbers'', pr_steps = None, pr_isComplete = False \<rparr>"

definition stuckState :: orchestratorState where
  "stuckState = (createInitialState ''Add 2 and 2'')
     \<lparr> os_steps := [planStepOf 1 True [], planStepOf 2 False [7]], os_status := StExecuting \<rparr>"

theorem replanning_keeps_completed_steps_witness:
  "(\<exists>st' s'.
      executeIteration replanOrchestrator ''Add 2 and 2'' None 0 firstPlan stuckState startSys
        = Continue 1 addAgainPlan st' s'
    \<and> os_steps st' =
        [planStepOf 1 True [],
         \<lparr> es_stepNumber = 3, es_description = ''Add the numbers again'',
           es_toolCall = \<lparr> tc_tool = ''add'', tc_arguments = Some [], tc_context = None \<rparr>,
           es_completed = False, es_result = None, es_error = None, es_dependsOn = Some [] \<rparr>])
   \<and> planStepOf 1 True []
        \<in> set (or_steps (fst (executeLoop replanOrchestrator ''Add 2 and 2'' None 0 firstPlan
                                 stuckState startSys)))
   \<and> or_steps (fst (execute replanOrchestrator ''Add 1 and 1'' None startSys)) =
        [\<lparr> es_stepNumber = 1, es_description = ''Add the numbers'',
           es_toolCall = \<lparr> tc_tool = ''add'', tc_arguments = Some [], tc_context = None \<rparr>,
           es_completed = True, es_result = Some (JNum 2), es_error = None, es_dependsOn = Some [] \<rparr>,
         \<lparr> es_stepNumber = 3, es_description = ''Add the numbers again'',
           es_toolCall = \<lparr> tc_tool = ''add'', tc_arguments = Some [], tc_context = None \<rparr>,
           es_completed = True, es_result = Some (JNum 2), es_error = None, es_dependsOn = Some [] \<rparr>]"
proof -
  let ?st = "stuckState\<lparr> os_currentStepIndex := es_stepNumber (os_steps stuckState ! 1) - 1 \<rparr>"
  let ?r = "executeStep replanOrchestrator 1 ?st startSys"
  let ?g = "generatePlan replanOrchestrator ''Add 2 and 2'' None (Some firstPlan)
              (Some (filter es_completed (os_steps (fst (snd ?r))))) (fst (snd ?r)) (snd (snd ?r))"
  have "isl (fst ?r)" by code_simp
  then obtain stepError st1 s1 where e: "?r = (Inl stepError, st1, s1)"
    by (cases ?r; cases "fst ?r") auto
  have "fst ?g = Inr addAgainPlan" by code_simp
  then obtain st2 s2 where n: "?g = (Inr addAgainPlan, st2, s2)"
    by (cases ?g) auto
  have c: "convertToExecutionSteps addAgainPlan =
             [\<lparr> es_stepNumber = 1, es_description = ''Add the numbers again'',
                es_toolCall = \<lparr> tc_tool = ''add'', tc_arguments = Some [], tc_context = None \<rparr>,
                es_completed = False, es_result = None, es_error = None, es_dependsOn = Some [] \<rparr>]"
    by code_simp
  have n': "generatePlan replanOrchestrator ''Add 2 and 2'' None (Some firstPlan)
              (Some (filter es_completed (os_steps st1))) st1 s1 = (Inr addAgainPlan, st2, s2)"
    using n unfolding e by simp
  have f: "findNextExecutableStep stuckState = Some 1" by code_simp
  have k: "(0::nat) < maxPlanRegenerations" by (simp add: maxPlanRegenerations_def)
  have l: "length (os_steps stuckState) < o_maxSteps replanOrchestrator" by code_simp
  have x: "filter es_completed (os_steps stuckState) = [planStepOf 1 True []]" by code_simp
  have m: "Max (insert 0 (es_stepNumber ` set (os_steps stuckState))) = 2"
    by (simp add: stuckState_def planStepOf_def)
  have d: "planStepOf 1 True [] \<in> set (os_steps stuckState) \<and> es_completed (planStepOf 1 True [])"
    by (simp add: stuckState_def planStepOf_def)
  have run: "or_steps (fst (execute replanOrchestrator ''Add 1 and 1'' None startSys)) =
        [\<lparr> es_stepNumber = 1, es_description = ''Add the numbers'',
           es_toolCall = \<lparr> tc_tool = ''add'', tc_arguments = Some [], tc_context = None \<rparr>,
           es_completed = True, es_result = Some (JNum 2), es_error = None, es_dependsOn = Some [] \<rparr>,
         \<lparr> es_stepNumber = 3, es_description = ''Add the numbers again'',
           es_toolCall = \<lparr> tc_tool = ''add'', tc_arguments = Some [], tc_context = None \<rparr>,
           es_completed = True, es_result = Some (JNum 2), es_error = None, es_dependsOn = Some [] \<rparr>]"
    by code_simp
  from replanning_keeps_completed_steps [OF f k l e n']
  show ?thesis
    using c x m d run by auto
qed

subsection \<open>The two ceilings of \<open>execute\<close>\<close>

text \<open>
  Claim C1, as amended. When a step is pending and \<open>steps.length >= maxSteps\<close>, the run
  ends with status \<open>completed\<close> and \<open>success = true\<close>, with the response
  \<open>Execution completed (reached maximum steps limit).\<close> When a step fails after the plan
  has been regenerated \<open>maxPlanRegenerations = 3\<close> times, the run ends with status \<open>error\<close>
  and \<open>success = false\<close>, with the response \<open>Execution failed after 3 plan
  regenerations:\<close> followed by the step's error.
\<close>

theorem ceilings_end_the_run:
  assumes "findNextExecutableStep st = Some i"
    and "planRegenerationCount \<le> maxPlanRegenerations"
  shows "(o_maxSteps orch \<le> length (os_steps st) \<longrightarrow>
            executeLoop orch userQuery systemPrompt planRegenerationCount planResponse st s =
              (\<lparr> or_success = True,
                 or_finalResponse = ''Execution completed (reached maximum steps limit).'',
                 or_steps = filter es_completed (os_steps st),
                 or_state = st\<lparr> os_status := StCompleted \<rparr>,
                 or_error = None \<rparr>, s))
       \<and> (length (os_steps st) < o_maxSteps orch
            \<and> planRegenerationCount = maxPlanRegenerations
            \<and> executeStep orch i (st\<lparr> os_currentStepIndex := es_stepNumber (os_steps st ! i) - 1 \<rparr>) s
                = (Inl stepError, st1, s1) \<longrightarrow>
            executeLoop orch userQuery systemPrompt planRegenerationCount planResponse st s =
              (\<lparr> or_success = False,
                 or_finalResponse = ''Execution failed after 3 plan regenerations: ''
                                    @ oe_message stepError,
                 or_steps = filter es_completed (os_steps st1),
                 or_state = st1\<lparr> os_status := StError, os_error := Some (oe_message stepError) \<rparr>,
                 or_error = Some (oe_message stepError) \<rparr>, s1))"
proof -
  have three: "string_of_nat maxPlanRegenerations = ''3''"
    unfolding maxPlanRegenerations_def by (rule string_of_nat_3)
  show ?thesis
    using assms
    by (subst executeLoop.simps, subst executeLoop.simps)
       (simp add: executeIteration_def resultOf_def three)
qed

text \<open>
  A gateway whose every plan is one step that waits for a step 99. Each attempt to run it
  fails, the plan is regenerated three times, and the fourth failure ends the run with an
  error; with a ceiling of one step, the run stops as completed before running anything.
\<close>

definition blockedGateway :: "unit llmService" where
  "blockedGateway =
     \<lparr> getStructuredParameters = (\<lambda>request w. (Inl ''offline'', w)),
       getStructuredPlan = (\<lambda>request w. (Inr \<lparr> sr_isValid = True,
            sr_structuredData = Some \<lparr> pr_plan = ''Add the numbers'',
               pr_steps = Some [\<lparr> ps_stepNumber = 1, ps_description = ''Add the numbers'',
                                  ps_tool = ''add'', ps_arguments = None,
                                  ps_dependsOn = Some [99] \<rparr>],
               pr_isComplete = False \<rparr>,
            sr_validationErrors = None \<rparr>, w)),
       getStructuredNextStep = (\<lambda>request w. (Inl ''offline'', w)) \<rparr>"

definition blockedOrchestrator :: "nat \<Rightarrow> unit orchestrator" where
  "blockedOrchestrator maxSteps =
     \<lparr> o_agent = sumAgent\<lparr> a_llmService := blockedGateway \<rparr>, o_maxSteps = maxSteps,
       o_stringify = (\<lambda>v. ''{}'') \<rparr>"

theorem regeneration_ceiling_counterexample:
  "\<not> or_success (fst (execute (blockedOrchestrator 10) ''Add 2 and 2'' None startSys))
   \<and> os_status (or_state (fst (execute (blockedOrchestrator 10) ''Add 2 and 2'' None startSys))) = StError
   \<and> or_finalResponse (fst (execute (blockedOrchestrator 10) ''Add 2 and 2'' None startSys)) =
       ''Execution failed after 3 plan regenerations: Step 4 depends on steps 99 which are not yet completed''
   \<and> length (gatewayCalls (trace (snd (execute (blockedOrchestrator 10) ''Add 2 and 2'' None startSys)))) = 4"
  by code_simp

theorem ceilings_end_the_run_witness:
  "fst (executeLoop (blockedOrchestrator 1) ''Add 2 and 2'' None 0 firstPlan stuckState startSys) =
     \<lparr> or_success = True,
       or_finalResponse = ''Execution completed (reached maximum steps limit).'',
       or_steps = [planStepOf 1 True []],
       or_state = stuckState\<lparr> os_status := StCompleted \<rparr>,
       or_error = None \<rparr>
   \<and> (\<exists>st1. fst (executeLoop (blockedOrchestrator 10) ''Add 2 and 2'' None 3 firstPlan stuckState startSys) =
     \<lparr> or_success = False,
       or_finalResponse = ''Execution failed after 3 plan regenerations: Step 2 depends on steps 7 which are not yet completed'',
       or_steps = [planStepOf 1 True []],
       or_state = st1\<lparr> os_status := StError,
            os_error := Some ''Step 2 depends on steps 7 which are not yet completed'' \<rparr>,
       or_error = Some ''Step 2 depends on steps 7 which are not yet completed'' \<rparr>)"
proof -
  let ?r = "executeStep (blockedOrchestrator 10) 1
     (stuckState\<lparr> os_currentStepIndex := es_stepNumber (os_steps stuckState ! 1) - 1 \<rparr>) startSys"
  let ?e = "OrchestratorError ''Step 2 depends on steps 7 which are not yet completed'' (Some 2)"
  have "fst ?r = Inl ?e" by code_simp
  then obtain st1 s1 where e: "?r = (Inl ?e, st1, s1)"
    by (cases ?r) auto
  have "filter es_completed (os_steps (fst (snd ?r))) = [planStepOf 1 True []]" by code_simp
  then have c: "filter es_completed (os_steps st1) = [planStepOf 1 True []]"
    unfolding e by simp
  have f: "findNextExecutableStep stuckState = Some 1" by code_simp
  have x: "filter es_completed (os_steps stuckState) = [planStepOf 1 True []]" by code_simp
  have l1: "o_maxSteps (blockedOrchestrator 1) \<le> length (os_steps stuckState)" by code_simp
  have l10: "length (os_steps stuckState) < o_maxSteps (blockedOrchestrator 10)" by code_simp
  have k0: "0 \<le> maxPlanRegenerations" by simp
  have k3: "3 \<le> maxPlanRegenerations" "3 = maxPlanRegenerations"
    by (simp_all add: maxPlanRegenerations_def)
  from ceilings_end_the_run [OF f k0, THEN conjunct1, rule_format, OF l1,
         of "''Add 2 and 2''" None firstPlan startSys] x
  have a: "fst (executeLoop (blockedOrchestrator 1) ''Add 2 and 2'' None 0 firstPlan stuckState startSys) =
     \<lparr> or_success = True,
       or_finalResponse = ''Execution completed (reached maximum steps limit).'',
       or_steps = [planStepOf 1 True []],
       or_state = stuckState\<lparr> os_status := StCompleted \<rparr>,
       or_error = None \<rparr>"
    by simp
  from ceilings_end_the_run [OF f k3(1), THEN conjunct2, rule_format, OF conjI [OF l10 conjI [OF k3(2) e]],
         of "''Add 2 and 2''" None firstPlan] c
  have b: "fst (executeLoop (blockedOrchestrator 10) ''Add 2 and 2'' None 3 firstPlan stuckState startSys) =
     \<lparr> or_success = False,
       or_finalResponse = ''Execution failed after 3 plan regenerations: Step 2 depends on steps 7 which are not yet completed'',
       or_steps = [planStepOf 1 True []],
       or_state = st1\<lparr> os_status := StError,
            os_error := Some ''Step 2 depends on steps 7 which are not yet completed'' \<rparr>,
       or_error = Some ''Step 2 depends on steps 7 which are not yet completed'' \<rparr>"
    by simp
  from a b show ?thesis by blast
qed

subsection \<open>Conforming records validate, and validation is idempotent\<close>















































text \<open>
  A record that lists its fields in another order than the schema validates, against a
  full schema and against a simplified one; a record whose \<open>color\<close> is a string outside
  the declared enum has all required fields, correct types, no bounds to break and no
  undeclared field, and is rejected all the same.
\<close>

definition goodRecord :: jrecord where
  "goodRecord = [(''n'', JNum 2), (''size'', JStr ''M''), (''color'', JStr ''red'')]"

definition sumRecord :: jrecord where
  "sumRecord = [(''b'', JNum 2), (''a'', JNum 1)]"




lemma sanitized_records:
  "validateAgainstSchema goodRecord (FullSchema exampleSchema) =
     \<lparr> isValid = True,
       vr_data = Some [(''color'', JStr ''red''), (''size'', JStr ''M''), (''n'', JNum 2)],
       vr_errors = None \<rparr>"
  "validateAgainstSchema sumRecord addSchema =
     \<lparr> isValid = True, vr_data = Some [(''a'', JNum 1), (''b'', JNum 2)], vr_errors = None \<rparr>"
  by code_simp+

text \<open>
  Why the names of the members of \<open>Object.prototype\<close> are left out: for a declared field
  that the record does not have, the property loop reads \<open>data[fieldName]\<close>, which for
  such a name is the inherited member. The record \<open>{a: 1}\<close> has every required field of a
  schema with a required number \<open>a\<close> and an optional string \<open>toString\<close>, and is rejected.
\<close>

lemma inherited_member_checked:
  "validateAgainstSchema [(''a'', JNum 1)]
     (FullSchema \<lparr> s_properties = [(''a'', typeOnly ''number''), (''toString'', typeOnly ''string'')],
                   s_required = Some [''a''] \<rparr>) =
     \<lparr> isValid = False, vr_data = None,
       vr_errors = Some [''Field '' @ quoted ''toString'' @ '' must be a string, got function''] \<rparr>"
  by code_simp

end
